theory Spec2Isabelle
  imports Complex_Main "HOL-Library.Word" "HOL-Library.Sublist" "HOL-Library.AList"
    "HOL-Library.Log_Nat"
begin

section \<open>CAN log analyzer: log loading and series preparation\<close>

text \<open>
  The development embeds the two worker units of \<^verbatim>\<open>can_log_plotter3.1.py\<close>,
  \<^verbatim>\<open>LogLoaderThread.run\<close> and \<^verbatim>\<open>PlotterThread.run\<close>, and the part of
  \<^verbatim>\<open>CANAnalyzerApp.plot_signals\<close> that decides whether and with which time range the
  plotter is started.

  Conventions. Signal values are IEEE doubles: the type \<open>double\<close> below has the
  infinities and NaN, and its arithmetic rounds to the nearest double. Timestamps and
  spin box values are only compared, never computed with; they are taken to be finite
  numbers and are reals. Integers are \<open>int\<close>; payload bytes are 8-bit words. A \<^verbatim>\<open>print\<close> that
  reports a skipped value, a failed decode or an unknown identifier is recorded as a
  \<open>diagnostic\<close>; purely informational prints are left out. The libraries the program
  calls (python-can readers, the cantools database and its \<^verbatim>\<open>decode\<close>) are not part
  of the program, so what they return is an input of the model.
\<close>

subsection \<open>Formatting of integers in keys\<close>

text \<open>\<^verbatim>\<open>f"{i}"\<close>, decimal digits of a natural number.\<close>

definition dec_digit :: "nat \<Rightarrow> char" where
  "dec_digit d = ''0123456789'' ! d"

function dec_nat :: "nat \<Rightarrow> string" where
  "dec_nat n = (if n < 10 then [dec_digit n] else dec_nat (n div 10) @ [dec_digit (n mod 10)])"
  by pat_completeness auto
termination
  by (relation "measure id") auto

declare dec_nat.simps [simp del]

text \<open>\<^verbatim>\<open>f"{n:X}"\<close>, upper-case hexadecimal, with a minus sign for a negative number.\<close>

definition hex_digit :: "nat \<Rightarrow> char" where
  "hex_digit d = ''0123456789ABCDEF'' ! d"

function hex_nat :: "nat \<Rightarrow> string" where
  "hex_nat n = (if n < 16 then [hex_digit n] else hex_nat (n div 16) @ [hex_digit (n mod 16)])"
  by pat_completeness auto
termination
  by (relation "measure id") auto

declare hex_nat.simps [simp del]

definition format_X :: "int \<Rightarrow> string" where
  "format_X n = (if n < 0 then ''-'' @ hex_nat (nat (- n)) else hex_nat (nat n))"

subsection \<open>IEEE double precision values\<close>

text \<open>
  A double is a finite number, an infinity or NaN. \<open>Finite x\<close> stands for the double of
  value \<open>x\<close>; the two zeros are not told apart. \<open>max_double\<close> is the largest finite
  double. The values that enter the model are meant to be doubles; every result of the
  arithmetic below is rounded and so is one again.
\<close>

datatype double = Finite real | PosInf | NegInf | NaN

definition max_double :: real where
  "max_double = (2 ^ 53 - 1) * 2 ^ 971"

text \<open>Powers of two with an integer exponent, and the binary exponent of a non-zero
  number \<open>x\<close>: the \<open>e\<close> with \<open>two_to e \<le> \<bar>x\<bar> < two_to (e + 1)\<close>.\<close>

definition two_to :: "int \<Rightarrow> real" where
  "two_to e = (if e \<ge> 0 then 2 ^ nat e else 1 / 2 ^ nat (- e))"

definition binary_exponent :: "real \<Rightarrow> int" where
  "binary_exponent x =
     (if \<bar>x\<bar> \<ge> 1 then bitlen \<lfloor>\<bar>x\<bar>\<rfloor> - 1 else - bitlen (\<lceil>1 / \<bar>x\<bar>\<rceil> - 1))"

text \<open>Rounding to the nearest double, ties to the even significand: the spacing of
  the doubles around \<open>x\<close> is \<open>quantum x\<close> (53 significant bits, the exponent not below
  that of the subnormal numbers); a result beyond the largest finite double is an
  infinity.\<close>

definition round_half_even :: "real \<Rightarrow> int" where
  "round_half_even x =
     (let n = \<lfloor>x\<rfloor>; r = x - of_int n
      in if r < 1 / 2 then n
         else if r > 1 / 2 then n + 1
         else if even n then n else n + 1)"

definition quantum :: "real \<Rightarrow> real" where
  "quantum x = two_to (max (binary_exponent x) (- 1022) - 52)"

definition round_real :: "real \<Rightarrow> real" where
  "round_real x = (if x = 0 then 0 else of_int (round_half_even (x / quantum x)) * quantum x)"

definition round_double :: "real \<Rightarrow> double" where
  "round_double x =
     (let y = round_real x
      in if y > max_double then PosInf else if y < - max_double then NegInf else Finite y)"

text \<open>Negation, addition, subtraction, division and the comparison \<^verbatim>\<open><\<close> of doubles.
  A comparison with NaN is false.\<close>

fun dneg :: "double \<Rightarrow> double" where
  "dneg (Finite x) = Finite (- x)"
| "dneg PosInf = NegInf"
| "dneg NegInf = PosInf"
| "dneg NaN = NaN"

fun dadd :: "double \<Rightarrow> double \<Rightarrow> double" where
  "dadd NaN b = NaN"
| "dadd a NaN = NaN"
| "dadd PosInf NegInf = NaN"
| "dadd NegInf PosInf = NaN"
| "dadd PosInf b = PosInf"
| "dadd NegInf b = NegInf"
| "dadd a PosInf = PosInf"
| "dadd a NegInf = NegInf"
| "dadd (Finite x) (Finite y) = round_double (x + y)"

definition dsub :: "double \<Rightarrow> double \<Rightarrow> double" where
  "dsub a b = dadd a (dneg b)"

fun ddiv :: "double \<Rightarrow> double \<Rightarrow> double" where
  "ddiv NaN b = NaN"
| "ddiv a NaN = NaN"
| "ddiv PosInf PosInf = NaN"
| "ddiv PosInf NegInf = NaN"
| "ddiv NegInf PosInf = NaN"
| "ddiv NegInf NegInf = NaN"
| "ddiv PosInf (Finite y) = (if y \<ge> 0 then PosInf else NegInf)"
| "ddiv NegInf (Finite y) = (if y \<ge> 0 then NegInf else PosInf)"
| "ddiv (Finite x) PosInf = Finite 0"
| "ddiv (Finite x) NegInf = Finite 0"
| "ddiv (Finite x) (Finite y) =
     (if y = 0 then (if x = 0 then NaN else if x > 0 then PosInf else NegInf)
      else round_double (x / y))"

fun dless :: "double \<Rightarrow> double \<Rightarrow> bool" where
  "dless NaN b = False"
| "dless a NaN = False"
| "dless PosInf b = False"
| "dless a NegInf = False"
| "dless NegInf b = True"
| "dless a PosInf = True"
| "dless (Finite x) (Finite y) = (x < y)"

definition dle :: "double \<Rightarrow> double \<Rightarrow> bool" where
  "dle a b = (a \<noteq> NaN \<and> b \<noteq> NaN \<and> (a = b \<or> dless a b))"

subsection \<open>Data model\<close>

text \<open>The channel of a python-can message: \<^verbatim>\<open>None\<close>, a number or a name.\<close>

datatype channel_id = NoChannel | ChannelNumber int | ChannelName string

text \<open>A python-can message as the readers yield it. The three optional attributes are
  \<open>None\<close> when \<^verbatim>\<open>hasattr\<close> is false.\<close>

record Message =
  timestamp :: real
  arbitration_id :: int
  data :: "8 word list"
  dlc :: int
  channel :: "channel_id option"
  is_fd :: "bool option"
  bitrate_switch :: "bool option"

text \<open>One row of the frame table (\<^verbatim>\<open>msg_data\<close>).\<close>

record msg_data =
  row_timestamp :: real
  row_arbitration_id :: int
  row_data :: "8 word list"
  row_dlc :: int
  row_channel :: channel_id
  row_is_fd :: bool
  row_bitrate_switch :: bool

definition make_msg_data :: "Message \<Rightarrow> msg_data" where
  "make_msg_data msg =
     \<lparr> row_timestamp = timestamp msg,
       row_arbitration_id = arbitration_id msg,
       row_data = data msg,
       row_dlc = dlc msg,
       row_channel = (case channel msg of Some c \<Rightarrow> c | None \<Rightarrow> ChannelNumber 0),
       row_is_fd = (case is_fd msg of Some b \<Rightarrow> b | None \<Rightarrow> False),
       row_bitrate_switch = (case bitrate_switch msg of Some b \<Rightarrow> b | None \<Rightarrow> False) \<rparr>"

text \<open>A sample is a pair (timestamp, value); \<^verbatim>\<open>signals_data\<close> maps a key to its samples
  in append order.\<close>

type_synonym sample = "real \<times> double"
type_synonym signals_data = "string \<rightharpoonup> sample list"

definition series :: "signals_data \<Rightarrow> string \<Rightarrow> sample list" where
  "series sd k = (case sd k of None \<Rightarrow> [] | Some xs \<Rightarrow> xs)"

text \<open>\<^verbatim>\<open>if key not in signals_data: signals_data[key] = []\<close>\<close>

definition ensure_key :: "string \<Rightarrow> signals_data \<Rightarrow> signals_data" where
  "ensure_key k sd = (if sd k = None then sd(k \<mapsto> []) else sd)"

text \<open>\<^verbatim>\<open>signals_data[key].append(s)\<close>; the key is present wherever the program appends.\<close>

definition append_sample :: "string \<Rightarrow> sample \<Rightarrow> signals_data \<Rightarrow> signals_data" where
  "append_sample k s sd = sd(k \<mapsto> series sd k @ [s])"

subsection \<open>Decoded values and their conversion\<close>

text \<open>
  A value of the dictionary returned by \<^verbatim>\<open>message.decode\<close>, seen through the only
  operation the program applies to it, \<^verbatim>\<open>float(value) if value is not None else 0.0\<close>:
  it is \<^verbatim>\<open>None\<close>, or an object that \<^verbatim>\<open>float\<close> converts (\<open>Numeric d\<close>, with \<open>d\<close> the
  resulting double), or an object on which \<^verbatim>\<open>float\<close> raises. The program catches \<^verbatim>\<open>TypeError\<close> and \<^verbatim>\<open>ValueError\<close>
  at the value; every other exception (\<^verbatim>\<open>OverflowError\<close> for an integer too large for
  a float) is \<open>OtherError\<close>.
\<close>

datatype float_exn = TypeError | ValueError | OtherError

datatype pyval = PyNone | Numeric double | NonNumeric float_exn

fun to_float :: "pyval \<Rightarrow> float_exn + double" where
  "to_float PyNone = Inr (Finite 0)"
| "to_float (Numeric x) = Inr x"
| "to_float (NonNumeric e) = Inl e"

text \<open>A cantools message: its name and its \<^verbatim>\<open>decode\<close> on a payload, which returns the
  decoded items in dictionary order or raises (\<open>None\<close>).\<close>

record dbc_message =
  name :: string
  decode :: "8 word list \<Rightarrow> (string \<times> pyval) list option"

text \<open>\<^verbatim>\<open>db.get_message_by_frame_id\<close>: the message, \<^verbatim>\<open>KeyError\<close>, or another exception.\<close>

datatype lookup = Found dbc_message | KeyError | LookupFailed

type_synonym database = "int \<Rightarrow> lookup"

datatype diagnostic =
    NonNumericValue string
  | DecodingFailed string
  | NoDbcMessage int
  | UnexpectedError int

datatype load_error = UnsupportedFormat | IndexError

subsection \<open>Decoding one frame\<close>

definition signal_key :: "string \<Rightarrow> string \<Rightarrow> string" where
  "signal_key message_name signal_name = message_name @ ''.'' @ signal_name"

definition byte_key :: "int \<Rightarrow> nat \<Rightarrow> string" where
  "byte_key ident i = ''ID_0x'' @ format_X ident @ ''.Byte'' @ dec_nat i"

text \<open>
  The loop over \<^verbatim>\<open>decoded.items()\<close>. The key is created before the conversion is
  tried. A \<^verbatim>\<open>TypeError\<close> or \<^verbatim>\<open>ValueError\<close> skips the item (\<^verbatim>\<open>continue\<close>); any other
  exception leaves the loop and reaches the handler of the whole decode, which prints
  "Decoding failed".
\<close>

fun store_decoded ::
  "string \<Rightarrow> real \<Rightarrow> (string \<times> pyval) list \<Rightarrow> signals_data \<Rightarrow> diagnostic list
     \<Rightarrow> signals_data \<times> diagnostic list" where
  "store_decoded mname ts [] sd dg = (sd, dg)"
| "store_decoded mname ts ((signal_name, v) # items) sd dg =
     (let key = signal_key mname signal_name;
          sd1 = ensure_key key sd
      in case to_float v of
           Inr x \<Rightarrow> store_decoded mname ts items (append_sample key (ts, x) sd1) dg
         | Inl e \<Rightarrow>
             if e = TypeError \<or> e = ValueError
             then store_decoded mname ts items sd1 (dg @ [NonNumericValue key])
             else (sd1, dg @ [DecodingFailed mname]))"

text \<open>The branch \<^verbatim>\<open>if self.db:\<close> for one message.\<close>

definition decode_with_db ::
  "database \<Rightarrow> Message \<Rightarrow> signals_data \<Rightarrow> diagnostic list \<Rightarrow> signals_data \<times> diagnostic list" where
  "decode_with_db db msg sd dg =
     (case db (arbitration_id msg) of
        KeyError \<Rightarrow> (sd, dg @ [NoDbcMessage (arbitration_id msg)])
      | LookupFailed \<Rightarrow> (sd, dg @ [UnexpectedError (arbitration_id msg)])
      | Found message \<Rightarrow>
          (case decode message (data msg) of
             None \<Rightarrow> (sd, dg @ [DecodingFailed (name message)])
           | Some decoded \<Rightarrow> store_decoded (name message) (timestamp msg) decoded sd dg))"

text \<open>The branch without a database: \<^verbatim>\<open>for i in range(msg.dlc)\<close>. Reading
  \<^verbatim>\<open>msg.data[i]\<close> beyond the payload raises \<^verbatim>\<open>IndexError\<close>, which no handler of the
  loop catches.\<close>

fun store_bytes :: "Message \<Rightarrow> nat list \<Rightarrow> signals_data \<Rightarrow> load_error + signals_data" where
  "store_bytes msg [] sd = Inr sd"
| "store_bytes msg (i # rest) sd =
     (let key = byte_key (arbitration_id msg) i;
          sd1 = ensure_key key sd
      in if i < length (data msg)
         then store_bytes msg rest
                (append_sample key (timestamp msg, Finite (real (unat (data msg ! i)))) sd1)
         else Inl IndexError)"

definition decode_raw :: "Message \<Rightarrow> signals_data \<Rightarrow> load_error + signals_data" where
  "decode_raw msg sd = store_bytes msg [0 ..< nat (dlc msg)] sd"

subsection \<open>The loader\<close>

text \<open>\<^verbatim>\<open>min(100, int((processed_messages / total_messages) * 100))\<close>: the quotient of
  the two counts and its product with 100 are rounded to doubles, and \<^verbatim>\<open>int\<close> cuts the
  fraction off. The counts are far below the range where a double overflows.\<close>

definition progress_value :: "nat \<Rightarrow> nat \<Rightarrow> int" where
  "progress_value processed_messages total_messages =
     min 100 \<lfloor>round_real (round_real (real processed_messages / real total_messages) * 100)\<rfloor>"

record loader =
  messages :: "msg_data list"
  signals :: signals_data
  processed_messages :: nat
  emitted :: "int list"
  printed :: "diagnostic list"

text \<open>The body of \<^verbatim>\<open>for msg in reader\<close>, and the loop. An exception that leaves the
  body ends the loop; the progress values emitted so far stay emitted.\<close>

definition process_message ::
  "database option \<Rightarrow> nat \<Rightarrow> Message \<Rightarrow> loader \<Rightarrow> load_error + loader" where
  "process_message db total_messages msg st =
     (case (case db of
              Some d \<Rightarrow> Inr (decode_with_db d msg (signals st) (printed st))
            | None \<Rightarrow>
                (case decode_raw msg (signals st) of
                   Inl e \<Rightarrow> Inl e
                 | Inr sd \<Rightarrow> Inr (sd, printed st))) of
        Inl e \<Rightarrow> Inl e
      | Inr (sd, dg) \<Rightarrow>
          Inr (st \<lparr> messages := messages st @ [make_msg_data msg],
                    signals := sd,
                    printed := dg,
                    processed_messages := processed_messages st + 1,
                    emitted := emitted st @
                      (if total_messages > 0
                       then [progress_value (processed_messages st + 1) total_messages]
                       else []) \<rparr>))"

fun read_messages ::
  "database option \<Rightarrow> nat \<Rightarrow> Message list \<Rightarrow> loader \<Rightarrow> loader \<times> load_error option" where
  "read_messages db total_messages [] st = (st, None)"
| "read_messages db total_messages (msg # rest) st =
     (case process_message db total_messages msg st of
        Inl e \<Rightarrow> (st, Some e)
      | Inr st' \<Rightarrow> read_messages db total_messages rest st')"

datatype terminal = Finished "msg_data list" signals_data | Error load_error

record load_result =
  progress :: "int list"
  diagnostics :: "diagnostic list"
  outcome :: terminal

text \<open>
  \<^verbatim>\<open>LogLoaderThread.run\<close>. \<open>ext\<close> is the lower-cased extension of the file path,
  \<open>line_count\<close> the number of lines counted in the file (\<open>None\<close> when counting raised,
  which sets the estimate to 0), \<open>reader\<close> the messages the python-can reader yields.
\<close>

definition LogLoaderThread_run ::
  "string \<Rightarrow> database option \<Rightarrow> nat option \<Rightarrow> Message list \<Rightarrow> load_result" where
  "LogLoaderThread_run ext db line_count reader =
     (if ext \<noteq> ''.asc'' \<and> ext \<noteq> ''.blf'' \<and> ext \<noteq> ''.csv''
      then \<lparr> progress = [], diagnostics = [], outcome = Error UnsupportedFormat \<rparr>
      else
        let total_messages = (case line_count of Some n \<Rightarrow> n | None \<Rightarrow> 0);
            (st, err) = read_messages db total_messages reader
                          \<lparr> messages = [], signals = Map.empty, processed_messages = 0,
                            emitted = [], printed = [] \<rparr>
        in \<lparr> progress = emitted st, diagnostics = printed st,
             outcome = (case err of Some e \<Rightarrow> Error e
                                  | None \<Rightarrow> Finished (messages st) (signals st)) \<rparr>)"

subsection \<open>Series preparation\<close>

text \<open>\<^verbatim>\<open>signal.replace('[PDU] ', '')\<close>: every occurrence of the display prefix, found in
  one pass from the left, is removed.\<close>

fun strip_pdu :: "string \<Rightarrow> string" where
  "strip_pdu [] = []"
| "strip_pdu (c # cs) =
     (if prefix ''[PDU] '' (c # cs) then strip_pdu (drop 6 (c # cs)) else c # strip_pdu cs)"

text \<open>The built-in \<^verbatim>\<open>min\<close> and \<^verbatim>\<open>max\<close> of a sequence of timestamps. \<open>None\<close> stands
  for the \<^verbatim>\<open>ValueError\<close> on an empty sequence; the program tests for emptiness before
  every call.\<close>

fun py_min :: "real list \<Rightarrow> real option" where
  "py_min [] = None"
| "py_min (x # xs) = Some (fold min xs x)"

fun py_max :: "real list \<Rightarrow> real option" where
  "py_max [] = None"
| "py_max (x # xs) = Some (fold max xs x)"

text \<open>\<^verbatim>\<open>np.min\<close> and \<^verbatim>\<open>np.max\<close> of an array of values: a NaN anywhere makes the result
  NaN. \<open>None\<close> stands for the \<^verbatim>\<open>ValueError\<close> on an empty array.\<close>

definition dmin :: "double \<Rightarrow> double \<Rightarrow> double" where
  "dmin a b = (if a = NaN \<or> b = NaN then NaN else if dless b a then b else a)"

definition dmax :: "double \<Rightarrow> double \<Rightarrow> double" where
  "dmax a b = (if a = NaN \<or> b = NaN then NaN else if dless a b then b else a)"

fun np_min :: "double list \<Rightarrow> double option" where
  "np_min [] = None"
| "np_min (v # vs) = Some (fold dmin vs v)"

fun np_max :: "double list \<Rightarrow> double option" where
  "np_max [] = None"
| "np_max (v # vs) = Some (fold dmax vs v)"

text \<open>\<^verbatim>\<open>np.mean\<close>: the sum divided by the length. The values are added from left to
  right, each sum rounded; numpy adds longer arrays in blocks, which can change the last
  bits of the mean.\<close>

fun np_mean :: "double list \<Rightarrow> double option" where
  "np_mean [] = None"
| "np_mean (v # vs) =
     Some (ddiv (fold (\<lambda>x acc. dadd acc x) (v # vs) (Finite 0))
                (Finite (real (length (v # vs)))))"

text \<open>\<^verbatim>\<open>data[(data['timestamp'] >= start_time) & (data['timestamp'] <= end_time)]\<close>:
  a boolean mask over the rows, then the rows whose mask entry is true.\<close>

definition time_mask :: "real \<Rightarrow> real \<Rightarrow> sample list \<Rightarrow> bool list" where
  "time_mask start_time end_time rows = map (\<lambda>(t, v). t \<ge> start_time \<and> t \<le> end_time) rows"

definition select_rows :: "sample list \<Rightarrow> bool list \<Rightarrow> sample list" where
  "select_rows rows keep = map fst (filter snd (zip rows keep))"

definition filter_rows :: "real \<Rightarrow> real \<Rightarrow> sample list \<Rightarrow> sample list" where
  "filter_rows start_time end_time rows = select_rows rows (time_mask start_time end_time rows)"

text \<open>The normalisation of the filtered values.\<close>

definition normalize_values :: "bool \<Rightarrow> double list \<Rightarrow> double list" where
  "normalize_values normalize_flag vals =
     (if normalize_flag \<and> length vals > 0
      then (case (np_min vals, np_max vals) of
              (Some min_val, Some max_val) \<Rightarrow>
                if dless min_val max_val
                then map (\<lambda>v. ddiv (dsub v min_val) (dsub max_val min_val)) vals
                else vals
            | _ \<Rightarrow> vals)
      else vals)"

record plot_style =
  color :: string
  linestyle :: string
  marker :: string

definition default_style :: plot_style where
  "default_style = \<lparr> color = ''blue'', linestyle = ''-'', marker = ''o'' \<rparr>"

record plot_entry =
  timestamps :: "real list"
  vals :: "double list"
  stats_min :: "double option"
  stats_max :: "double option"
  stats_mean :: "double option"
  style :: plot_style

definition make_entry ::
  "bool \<Rightarrow> (string \<rightharpoonup> plot_style) \<Rightarrow> string \<Rightarrow> sample list \<Rightarrow> plot_entry" where
  "make_entry normalize_flag plot_styles signal filtered_data =
     (let vs = normalize_values normalize_flag (map snd filtered_data)
      in \<lparr> timestamps = map fst filtered_data,
           vals = vs,
           stats_min = (if length vs > 0 then np_min vs else None),
           stats_max = (if length vs > 0 then np_max vs else None),
           stats_mean = (if length vs > 0 then np_mean vs else None),
           style = (case plot_styles signal of Some st \<Rightarrow> st | None \<Rightarrow> default_style) \<rparr>)"

datatype plot_error = NoDataAvailable | NoValidData

text \<open>The second loop of \<^verbatim>\<open>PlotterThread.run\<close>; \<^verbatim>\<open>plot_data\<close> is a dictionary, kept as
  an association list in insertion order.\<close>

fun prepare ::
  "signals_data \<Rightarrow> (string \<rightharpoonup> plot_style) \<Rightarrow> bool \<Rightarrow> real \<Rightarrow> real \<Rightarrow> string list
     \<Rightarrow> (string \<times> plot_entry) list \<Rightarrow> (string \<times> plot_entry) list" where
  "prepare sd plot_styles normalize_flag start_time end_time [] plot_data = plot_data"
| "prepare sd plot_styles normalize_flag start_time end_time (signal # rest) plot_data =
     (let clean_signal = strip_pdu signal
      in case sd clean_signal of
           None \<Rightarrow> prepare sd plot_styles normalize_flag start_time end_time rest plot_data
         | Some rows \<Rightarrow>
             (let filtered_data = filter_rows start_time end_time rows
              in if filtered_data = []
                 then prepare sd plot_styles normalize_flag start_time end_time rest plot_data
                 else prepare sd plot_styles normalize_flag start_time end_time rest
                        (AList.update clean_signal
                           (make_entry normalize_flag plot_styles signal filtered_data) plot_data)))"

text \<open>The first loop: the timestamps of every selected signal that is stored.\<close>

definition all_timestamps :: "signals_data \<Rightarrow> string list \<Rightarrow> real list" where
  "all_timestamps sd selected_signals =
     concat (map (\<lambda>signal. case sd (strip_pdu signal) of
                              Some rows \<Rightarrow> map fst rows
                            | None \<Rightarrow> []) selected_signals)"

definition time_window ::
  "signals_data \<Rightarrow> string list \<Rightarrow> (real \<times> real) option \<Rightarrow> plot_error + real \<times> real" where
  "time_window sd selected_signals time_range =
     (case time_range of
        Some (start_time, end_time) \<Rightarrow> Inr (start_time, end_time)
      | None \<Rightarrow>
          (case (py_min (all_timestamps sd selected_signals),
                 py_max (all_timestamps sd selected_signals)) of
             (Some start_time, Some end_time) \<Rightarrow> Inr (start_time, end_time)
           | _ \<Rightarrow> Inl NoDataAvailable))"

text \<open>\<^verbatim>\<open>PlotterThread.run\<close>: \<open>Inl\<close> is the \<^verbatim>\<open>error\<close> signal, \<open>Inr\<close> the
  \<^verbatim>\<open>finished\<close> signal with \<^verbatim>\<open>plot_data\<close>.\<close>

definition PlotterThread_run ::
  "signals_data \<Rightarrow> string list \<Rightarrow> (real \<times> real) option \<Rightarrow> bool \<Rightarrow> (string \<rightharpoonup> plot_style)
     \<Rightarrow> plot_error + (string \<times> plot_entry) list" where
  "PlotterThread_run sd selected_signals time_range normalize_flag plot_styles =
     (case time_window sd selected_signals time_range of
        Inl err \<Rightarrow> Inl err
      | Inr (start_time, end_time) \<Rightarrow>
          (let plot_data = prepare sd plot_styles normalize_flag start_time end_time
                             selected_signals []
           in if plot_data = [] then Inl NoValidData else Inr plot_data))"

subsection \<open>Starting the plotter\<close>

text \<open>
  The state of the application that \<^verbatim>\<open>plot_signals\<close> reads or writes: the loaded frame
  table and series map, the widgets (selected list items, time range combo box and spin
  boxes, normalise check box), the titles of the plot tabs, whether the current tab is
  the raw data tab, and the plotter thread last started. The styles computed from the
  colour cycle and the style combo boxes are taken as given.
\<close>

record plotter_args =
  arg_signals_data :: signals_data
  arg_selected_signals :: "string list"
  arg_time_range :: "(real \<times> real) option"
  arg_normalize :: bool
  arg_plot_styles :: "string \<rightharpoonup> plot_style"

record app =
  log_data :: "msg_data list option"
  signals_data :: signals_data
  selected_items :: "string list"
  time_range_combo :: string
  start_time_spin :: real
  end_time_spin :: real
  normalize_check :: bool
  plot_styles :: "string \<rightharpoonup> plot_style"
  plot_tabs :: "string list"
  current_is_raw_data_tab :: bool
  plotter_thread :: "plotter_args option"

datatype warning =
    LoadLogFirst
  | SelectSignal
  | NoDataForSelected
  | CannotUpdateRawData
  | StartNotLessThanEnd
  | NoDataPoints

datatype plot_outcome = Warning warning | Started plotter_args

fun join :: "string \<Rightarrow> string list \<Rightarrow> string" where
  "join sep [] = []"
| "join sep [x] = x"
| "join sep (x # y # rest) = x @ sep @ join sep (y # rest)"

definition tab_title :: "string list \<Rightarrow> string" where
  "tab_title selected_signals =
     (if length selected_signals > 3
      then join '' | '' (take 3 selected_signals @ [''...''])
      else join '' | '' selected_signals)"

text \<open>The block \<^verbatim>\<open>if self.time_range_combo.currentText() == "Custom":\<close>. \<open>Inl\<close> is a
  warning followed by \<^verbatim>\<open>return\<close>; \<open>Inr\<close> is the \<^verbatim>\<open>time_range\<close> handed to the plotter.\<close>

definition choose_time_range ::
  "signals_data \<Rightarrow> string list \<Rightarrow> string \<Rightarrow> real \<Rightarrow> real \<Rightarrow> warning + (real \<times> real) option" where
  "choose_time_range sd valid_signals combo start_time end_time =
     (if combo = ''Custom''
      then
        if start_time \<ge> end_time then Inl StartNotLessThanEnd
        else
          let has_data = list_ex (\<lambda>signal. filter_rows start_time end_time (series sd signal) \<noteq> [])
                           valid_signals
          in if \<not> has_data
             then
               (let all_ts = concat (map (\<lambda>signal. map fst (series sd signal)) valid_signals)
                in case (py_min all_ts, py_max all_ts) of
                     (Some lo, Some hi) \<Rightarrow> Inr (Some (lo, hi))
                   | _ \<Rightarrow> Inl NoDataPoints)
             else Inr (Some (start_time, end_time))
      else Inr None)"

text \<open>The selected names, stripped, that are keys of the series map
  (\<^verbatim>\<open>valid_signals\<close>).\<close>

definition valid_signals :: "app \<Rightarrow> string list" where
  "valid_signals a =
     filter (\<lambda>clean_signal. signals_data a clean_signal \<noteq> None)
       (map strip_pdu (selected_items a))"

definition plot_signals :: "app \<Rightarrow> bool \<Rightarrow> plot_outcome \<times> app" where
  "plot_signals a update =
     (if log_data a = None then (Warning LoadLogFirst, a)
      else if selected_items a = [] then (Warning SelectSignal, a)
      else if valid_signals a = [] then (Warning NoDataForSelected, a)
      else if update \<and> current_is_raw_data_tab a then (Warning CannotUpdateRawData, a)
      else
        let a1 = (if update then a
                  else a \<lparr> plot_tabs := plot_tabs a @ [tab_title (selected_items a)],
                           current_is_raw_data_tab := False \<rparr>)
        in case choose_time_range (signals_data a) (valid_signals a) (time_range_combo a)
                  (start_time_spin a) (end_time_spin a) of
             Inl w \<Rightarrow> (Warning w, a1)
           | Inr time_range \<Rightarrow>
               (let args = \<lparr> arg_signals_data = signals_data a,
                             arg_selected_signals = valid_signals a,
                             arg_time_range = time_range,
                             arg_normalize = normalize_check a,
                             arg_plot_styles = plot_styles a \<rparr>
                in (Started args, a1 \<lparr> plotter_thread := Some args \<rparr>)))"


subsection \<open>Notions used in the statements\<close>

text \<open>A selected signal resolves to no data in a window: no series is stored under its
  stripped name, or no row of the series lies in the window.\<close>

definition no_data :: "signals_data \<Rightarrow> real \<Rightarrow> real \<Rightarrow> string \<Rightarrow> bool" where
  "no_data sd start_time end_time signal =
     (case sd (strip_pdu signal) of
        None \<Rightarrow> True
      | Some rows \<Rightarrow> filter_rows start_time end_time rows = [])"

text \<open>The items of a decoded dictionary that the loop of \<open>store_decoded\<close> reaches: all
  of them up to and including the first whose conversion raises an exception other than
  \<^verbatim>\<open>TypeError\<close> and \<^verbatim>\<open>ValueError\<close>.\<close>

fun reached :: "(string \<times> pyval) list \<Rightarrow> (string \<times> pyval) list" where
  "reached [] = []"
| "reached ((signal_name, v) # items) =
     (signal_name, v) # (if to_float v = Inl OtherError then [] else reached items)"

text \<open>What one decoded value contributes: the samples appended for it, and the
  diagnostics printed for it under its key.\<close>

fun item_samples :: "real \<Rightarrow> pyval \<Rightarrow> sample list" where
  "item_samples ts PyNone = [(ts, Finite 0)]"
| "item_samples ts (Numeric x) = [(ts, x)]"
| "item_samples ts (NonNumeric e) = []"

fun item_diagnostics :: "string \<Rightarrow> string \<Rightarrow> pyval \<Rightarrow> diagnostic list" where
  "item_diagnostics mname key PyNone = []"
| "item_diagnostics mname key (Numeric x) = []"
| "item_diagnostics mname key (NonNumeric e) =
     [if e = TypeError \<or> e = ValueError then NonNumericValue key else DecodingFailed mname]"



subsection \<open>Example inputs\<close>

text \<open>A series map with an out-of-order series, used to instantiate the theorems.\<close>

definition example_store :: signals_data where
  "example_store =
     [''Engine.RPM'' \<mapsto> [(2, Finite 150), (0, Finite 100), (1, Finite 200)],
      ''Speed.KPH'' \<mapsto> [(7, Finite 30)]]"

text \<open>A series map with a varying and a constant series.\<close>

definition example_values :: signals_data where
  "example_values =
     [''Engine.Temp'' \<mapsto> [(0, Finite 1), (1, Finite 3), (2, Finite 5)],
      ''Engine.Load'' \<mapsto> [(0, Finite 5), (1, Finite 5), (2, Finite 5)]]"

text \<open>A classic frame as a reader yields it, its declared length that of its payload.\<close>

definition example_msg :: "real \<Rightarrow> int \<Rightarrow> 8 word list \<Rightarrow> Message" where
  "example_msg ts ident payload =
     \<lparr> timestamp = ts, arbitration_id = ident, data = payload, dlc = int (length payload),
       channel = Some (ChannelNumber 0), is_fd = Some False, bitrate_switch = Some False \<rparr>"

text \<open>The application after a log is loaded, with one signal selected and a custom range.\<close>

definition example_app :: "signals_data \<Rightarrow> real \<Rightarrow> real \<Rightarrow> app" where
  "example_app sd start_time end_time =
     \<lparr> log_data = Some [], signals_data = sd,
       selected_items = [''Engine.RPM''], time_range_combo = ''Custom'',
       start_time_spin = start_time, end_time_spin = end_time, normalize_check = False,
       plot_styles = Map.empty, plot_tabs = [], current_is_raw_data_tab = True,
       plotter_thread = None \<rparr>"

text \<open>A database with the single message \<open>Engine\<close> at identifier \<open>0x100\<close>, whose
  \<^verbatim>\<open>decode\<close> returns the given result on every payload.\<close>

definition example_db :: "(string \<times> pyval) list option \<Rightarrow> database" where
  "example_db decoded ident =
     (if ident = 256 then Found \<lparr> name = ''Engine'', decode = (\<lambda>payload. decoded) \<rparr>
      else KeyError)"

section \<open>Properties\<close>

subsection \<open>Window filter, minimum and maximum of timestamps\<close>

lemma select_rows_map: "select_rows rows (map P rows) = filter P rows"
  unfolding select_rows_def by (induction rows) auto

lemma filter_rows_filter:
  "filter_rows start_time end_time rows = filter (\<lambda>(t, v). start_time \<le> t \<and> t \<le> end_time) rows"
  unfolding filter_rows_def time_mask_def by (simp add: select_rows_map)



lemma py_min_None: "py_min vs = None \<longleftrightarrow> vs = []"
  by (cases vs) simp_all

lemma py_max_None: "py_max vs = None \<longleftrightarrow> vs = []"
  by (cases vs) simp_all

subsection \<open>Doubles: exact results, order, minimum and maximum\<close>

text \<open>\<open>two_to\<close> is the power of two, and \<open>binary_exponent\<close> the exponent it is
  meant to be.\<close>

lemma two_to_powr: "two_to e = 2 powr real_of_int e"
proof (cases "e \<ge> 0")
  case True
  then have "real_of_int e = real (nat e)" by simp
  then show ?thesis using True by (simp add: two_to_def powr_realpow del: of_nat_nat)
next
  case False
  then have "real_of_int e = - real (nat (- e))" by simp
  then show ?thesis using False
    by (simp add: two_to_def powr_minus powr_realpow field_simps del: of_nat_nat)
qed

lemma two_to_pos: "0 < two_to e"
  by (simp add: two_to_powr)

lemma two_to_add: "two_to (a + b) = two_to a * two_to b"
  by (simp add: two_to_powr powr_add)

lemma two_to_less: "two_to a < two_to b \<longleftrightarrow> a < b"
  by (simp add: two_to_powr)

lemma two_to_le: "two_to a \<le> two_to b \<longleftrightarrow> a \<le> b"
  by (simp add: two_to_powr)

lemma two_to_nat: "0 \<le> e \<Longrightarrow> two_to e = of_int (2 ^ nat e)"
  by (simp add: two_to_def)

lemma binary_exponent_bounds:
  assumes "x \<noteq> 0"
  shows "two_to (binary_exponent x) \<le> \<bar>x\<bar> \<and> \<bar>x\<bar> < two_to (binary_exponent x + 1)"
proof (cases "\<bar>x\<bar> \<ge> 1")
  case True
  let ?n = "\<lfloor>\<bar>x\<bar>\<rfloor>"
  from True have n: "?n > 0" by linarith
  from bitlen_bounds [OF n] have b: "2 ^ nat (bitlen ?n - 1) \<le> ?n" "?n < 2 ^ nat (bitlen ?n)"
    by simp_all
  from n have bl: "bitlen ?n \<ge> 1" by (auto simp: bitlen_alt_def)
  have e: "binary_exponent x = bitlen ?n - 1" using True by (simp add: binary_exponent_def)
  have "two_to (bitlen ?n - 1) = of_int (2 ^ nat (bitlen ?n - 1))"
    using bl by (intro two_to_nat) simp
  also have "\<dots> \<le> of_int ?n" using b(1) by (simp only: of_int_le_iff)
  also have "\<dots> \<le> \<bar>x\<bar>" by linarith
  finally have lower: "two_to (bitlen ?n - 1) \<le> \<bar>x\<bar>" .
  have "?n + 1 \<le> 2 ^ nat (bitlen ?n)" using b(2) by simp
  then have "real_of_int (?n + 1) \<le> of_int (2 ^ nat (bitlen ?n))" by (simp only: of_int_le_iff)
  moreover have "\<bar>x\<bar> < real_of_int (?n + 1)" by linarith
  moreover have "two_to (bitlen ?n) = of_int (2 ^ nat (bitlen ?n))"
    using bl by (intro two_to_nat) simp
  ultimately have upper: "\<bar>x\<bar> < two_to (bitlen ?n)" by linarith
  from lower upper e show ?thesis by simp
next
  case False
  define y where "y = 1 / \<bar>x\<bar>"
  from False assms have y: "y > 1" and x: "\<bar>x\<bar> = 1 / y" "\<bar>x\<bar> > 0" by (simp_all add: y_def)
  let ?c = "\<lceil>y\<rceil>"
  from y have c: "?c - 1 > 0" by linarith
  define k where "k = bitlen (?c - 1)"
  from bitlen_bounds [OF c] have b: "2 ^ nat (k - 1) \<le> ?c - 1" "?c - 1 < 2 ^ nat k"
    by (simp_all add: k_def)
  from c have kl: "k \<ge> 1" by (auto simp: bitlen_alt_def k_def)
  have e: "binary_exponent x = - k" using False by (simp add: binary_exponent_def k_def y_def)
  have "real_of_int (2 ^ nat (k - 1)) \<le> of_int (?c - 1)" using b(1) by (simp only: of_int_le_iff)
  moreover have "real_of_int (?c - 1) < y" by linarith
  moreover have "two_to (k - 1) = of_int (2 ^ nat (k - 1))" using kl by (intro two_to_nat) simp
  ultimately have ylow: "two_to (k - 1) < y" by linarith
  have "?c \<le> 2 ^ nat k" using b(2) by simp
  then have "real_of_int ?c \<le> of_int (2 ^ nat k)" by (simp only: of_int_le_iff)
  moreover have "y \<le> real_of_int ?c" by linarith
  moreover have "two_to k = of_int (2 ^ nat k)" using kl by (intro two_to_nat) simp
  ultimately have yup: "y \<le> two_to k" by linarith
  have inv: "two_to (- j) = 1 / two_to j" for j
    by (simp add: two_to_powr powr_minus field_simps)
  have "two_to (- k) \<le> \<bar>x\<bar>"
    unfolding x(1) inv using yup y two_to_pos [of k] by (simp add: field_simps)
  moreover have "\<bar>x\<bar> < two_to (- k + 1)"
  proof -
    have "two_to (- k + 1) = 1 / two_to (k - 1)" using inv [of "k - 1"] by simp
    moreover have "1 / y < 1 / two_to (k - 1)"
      using ylow y two_to_pos [of "k - 1"] by (intro divide_strict_left_mono) simp_all
    ultimately show ?thesis unfolding x(1) by simp
  qed
  ultimately show ?thesis using e by simp
qed

lemma round_half_even_int: "round_half_even (of_int k) = k"
  by (simp add: round_half_even_def)

lemma round_half_even_nonneg: "0 \<le> x \<Longrightarrow> 0 \<le> round_half_even x"
  by (auto simp: round_half_even_def Let_def)

lemma round_real_nonneg: "0 \<le> x \<Longrightarrow> 0 \<le> round_real x"
proof -
  assume x: "0 \<le> x"
  have q: "0 < quantum x" by (simp add: quantum_def two_to_pos)
  with x have "0 \<le> x / quantum x" by simp
  then have "0 \<le> round_half_even (x / quantum x)" by (rule round_half_even_nonneg)
  with q show ?thesis by (simp add: round_real_def)
qed

lemma round_real_exact:
  assumes "\<bar>m\<bar> < 2 ^ 53" and "- 1074 \<le> e"
  shows "round_real (of_int m * two_to e) = of_int m * two_to e"
proof (cases "m = 0")
  case True
  then show ?thesis by (simp add: round_real_def)
next
  case False
  define x where "x = real_of_int m * two_to e"
  have x0: "x \<noteq> 0" using False two_to_pos [of e] by (simp add: x_def)
  define q where "q = max (binary_exponent x) (- 1022) - 52"
  have "\<bar>x\<bar> = \<bar>real_of_int m\<bar> * two_to e" using two_to_pos [of e] by (simp add: x_def abs_mult)
  also have "\<dots> < 2 ^ 53 * two_to e"
    using assms(1) two_to_pos [of e] by (intro mult_strict_right_mono) simp_all
  also have "\<dots> = two_to (e + 53)"
  proof -
    have "two_to 53 = 2 ^ 53" by (simp add: two_to_def)
    then show ?thesis by (simp add: two_to_add)
  qed
  finally have "two_to (binary_exponent x) < two_to (e + 53)"
    using binary_exponent_bounds [OF x0] by linarith
  then have "binary_exponent x < e + 53" by (simp only: two_to_less)
  with assms(2) have qe: "q \<le> e" by (simp add: q_def)
  have "two_to e = two_to (e - q) * two_to q" by (simp add: two_to_add [symmetric])
  moreover have "two_to (e - q) = of_int (2 ^ nat (e - q))" using qe by (intro two_to_nat) simp
  ultimately have xq: "x = of_int (m * 2 ^ nat (e - q)) * two_to q" by (simp add: x_def)
  have "x / quantum x = of_int (m * 2 ^ nat (e - q))"
    unfolding quantum_def q_def [symmetric] using two_to_pos [of q] by (subst xq) simp
  then have "round_real x = of_int (m * 2 ^ nat (e - q)) * two_to q"
    using x0 by (simp add: round_real_def round_half_even_int quantum_def q_def [symmetric]
                   del: of_int_mult of_int_power)
  with xq show ?thesis unfolding x_def by simp metis
qed

lemma round_double_exact:
  assumes "\<bar>m\<bar> < 2 ^ 53" and "- 1074 \<le> e" and "e \<le> 971"
  shows "round_double (of_int m * two_to e) = Finite (of_int m * two_to e)"
proof -
  have "\<bar>real_of_int m * two_to e\<bar> = \<bar>real_of_int m\<bar> * two_to e"
    using two_to_pos [of e] by (simp add: abs_mult)
  also have "\<dots> \<le> (2 ^ 53 - 1) * two_to 971"
  proof (intro mult_mono)
    from assms(1) have "\<bar>m\<bar> \<le> 2 ^ 53 - 1" by simp
    then have "real_of_int \<bar>m\<bar> \<le> real_of_int (2 ^ 53 - 1)" by (simp only: of_int_le_iff)
    then show "\<bar>real_of_int m\<bar> \<le> 2 ^ 53 - 1" by simp
    show "two_to e \<le> two_to 971" using assms(3) by (simp only: two_to_le)
  qed (use two_to_pos [of e] in simp_all)
  also have "\<dots> = max_double" by (simp add: max_double_def two_to_def)
  finally have "\<bar>real_of_int m * two_to e\<bar> \<le> max_double" .
  then show ?thesis
    by (simp add: round_double_def round_real_exact [OF assms(1,2)] Let_def) linarith
qed

lemma binary_exponent_eq:
  assumes "two_to e \<le> \<bar>x\<bar>" and "\<bar>x\<bar> < two_to (e + 1)"
  shows "binary_exponent x = e"
proof -
  from assms(1) two_to_pos [of e] have x0: "x \<noteq> 0" by auto
  from binary_exponent_bounds [OF x0] assms
  have "two_to (binary_exponent x) < two_to (e + 1)" "two_to e < two_to (binary_exponent x + 1)"
    by linarith+
  then have "binary_exponent x < e + 1" "e < binary_exponent x + 1" by (simp_all only: two_to_less)
  then show ?thesis by simp
qed

lemma round_half_even_down:
  assumes "of_int n \<le> x" and "x - of_int n < 1 / 2"
  shows "round_half_even x = n"
proof -
  from assms have "\<lfloor>x\<rfloor> = n" by (intro floor_unique) linarith+
  with assms(2) show ?thesis by (simp add: round_half_even_def Let_def)
qed

lemma round_real_down:
  assumes "two_to e \<le> \<bar>x\<bar>" and "\<bar>x\<bar> < two_to (e + 1)" and "- 1022 \<le> e"
      and "of_int n \<le> x / two_to (e - 52)" and "x / two_to (e - 52) - of_int n < 1 / 2"
  shows "round_real x = of_int n * two_to (e - 52)"
proof -
  from assms(1) two_to_pos [of e] have x0: "x \<noteq> 0" by auto
  have "quantum x = two_to (e - 52)"
    using binary_exponent_eq [OF assms(1,2)] assms(3) by (simp add: quantum_def)
  with x0 round_half_even_down [OF assms(4,5)] show ?thesis by (simp add: round_real_def)
qed

lemma dle_refl: "a \<noteq> NaN \<Longrightarrow> dle a a"
  by (simp add: dle_def)

lemma dle_trans: "dle a b \<Longrightarrow> dle b c \<Longrightarrow> dle a c"
  by (cases a; cases b; cases c) (auto simp: dle_def)

lemma dle_antisym: "dle a b \<Longrightarrow> dle b a \<Longrightarrow> a = b"
  by (cases a; cases b) (auto simp: dle_def)

lemma dle_total: "a \<noteq> NaN \<Longrightarrow> b \<noteq> NaN \<Longrightarrow> dle a b \<or> dle b a"
  by (cases a; cases b) (auto simp: dle_def)

lemma dless_dle: "dless a b \<longleftrightarrow> dle a b \<and> a \<noteq> b"
  by (cases a; cases b) (auto simp: dle_def)

lemma dmin_NaN: "dmin a b = NaN \<longleftrightarrow> a = NaN \<or> b = NaN"
  by (simp add: dmin_def)

lemma dmax_NaN: "dmax a b = NaN \<longleftrightarrow> a = NaN \<or> b = NaN"
  by (simp add: dmax_def)

lemma fold_dmin_NaN: "fold dmin vs v = NaN \<longleftrightarrow> v = NaN \<or> NaN \<in> set vs"
  by (induction vs arbitrary: v) (auto simp: dmin_NaN)

lemma fold_dmax_NaN: "fold dmax vs v = NaN \<longleftrightarrow> v = NaN \<or> NaN \<in> set vs"
  by (induction vs arbitrary: v) (auto simp: dmax_NaN)

lemma dmin_least:
  "a \<noteq> NaN \<Longrightarrow> b \<noteq> NaN \<Longrightarrow> (dmin a b = a \<or> dmin a b = b) \<and> dle (dmin a b) a \<and> dle (dmin a b) b"
  by (cases a; cases b) (auto simp: dmin_def dle_def)

lemma dmax_greatest:
  "a \<noteq> NaN \<Longrightarrow> b \<noteq> NaN \<Longrightarrow> (dmax a b = a \<or> dmax a b = b) \<and> dle a (dmax a b) \<and> dle b (dmax a b)"
  by (cases a; cases b) (auto simp: dmax_def dle_def)

lemma fold_dmin_least:
  assumes "NaN \<notin> set (v # vs)"
  shows "fold dmin vs v \<in> set (v # vs) \<and> (\<forall>x\<in>set (v # vs). dle (fold dmin vs v) x)"
  using assms
proof (induction vs arbitrary: v)
  case Nil
  then show ?case by (simp add: dle_refl)
next
  case (Cons a vs)
  from Cons.prems have n: "a \<noteq> NaN" "v \<noteq> NaN" "NaN \<notin> set vs" by auto
  from dmin_least [OF n(1,2)] have m: "dmin a v = a \<or> dmin a v = v"
      "dle (dmin a v) a" "dle (dmin a v) v" by simp_all
  then have "dmin a v \<noteq> NaN" using n by auto
  with n(3) have "NaN \<notin> set (dmin a v # vs)" by simp
  from Cons.IH [OF this]
  have ih: "fold dmin vs (dmin a v) \<in> set (dmin a v # vs)"
      "\<forall>x\<in>set (dmin a v # vs). dle (fold dmin vs (dmin a v)) x" by simp_all
  from ih(2) have low: "dle (fold dmin vs (dmin a v)) (dmin a v)" by simp
  have "dle (fold dmin vs (dmin a v)) a" "dle (fold dmin vs (dmin a v)) v"
    using dle_trans [OF low m(2)] dle_trans [OF low m(3)] by simp_all
  with ih m(1) show ?case by auto
qed

lemma fold_dmax_greatest:
  assumes "NaN \<notin> set (v # vs)"
  shows "fold dmax vs v \<in> set (v # vs) \<and> (\<forall>x\<in>set (v # vs). dle x (fold dmax vs v))"
  using assms
proof (induction vs arbitrary: v)
  case Nil
  then show ?case by (simp add: dle_refl)
next
  case (Cons a vs)
  from Cons.prems have n: "a \<noteq> NaN" "v \<noteq> NaN" "NaN \<notin> set vs" by auto
  from dmax_greatest [OF n(1,2)] have m: "dmax a v = a \<or> dmax a v = v"
      "dle a (dmax a v)" "dle v (dmax a v)" by simp_all
  then have "dmax a v \<noteq> NaN" using n by auto
  with n(3) have "NaN \<notin> set (dmax a v # vs)" by simp
  from Cons.IH [OF this]
  have ih: "fold dmax vs (dmax a v) \<in> set (dmax a v # vs)"
      "\<forall>x\<in>set (dmax a v # vs). dle x (fold dmax vs (dmax a v))" by simp_all
  from ih(2) have up: "dle (dmax a v) (fold dmax vs (dmax a v))" by simp
  have "dle a (fold dmax vs (dmax a v))" "dle v (fold dmax vs (dmax a v))"
    using dle_trans [OF m(2) up] dle_trans [OF m(3) up] by simp_all
  with ih m(1) show ?case by auto
qed

lemma np_min_NaN: "vs \<noteq> [] \<Longrightarrow> NaN \<in> set vs \<Longrightarrow> np_min vs = Some NaN"
  by (cases vs) (auto simp: fold_dmin_NaN)

lemma np_max_NaN: "vs \<noteq> [] \<Longrightarrow> NaN \<in> set vs \<Longrightarrow> np_max vs = Some NaN"
  by (cases vs) (auto simp: fold_dmax_NaN)

lemma np_min_least:
  assumes "vs \<noteq> []" and "NaN \<notin> set vs"
  shows "\<exists>lo. np_min vs = Some lo \<and> lo \<in> set vs \<and> (\<forall>x\<in>set vs. dle lo x)"
proof (cases vs)
  case Nil
  with assms show ?thesis by simp
next
  case (Cons v rest)
  with assms(2) have "NaN \<notin> set (v # rest)" by simp
  from fold_dmin_least [OF this] Cons show ?thesis by simp
qed

lemma np_max_greatest:
  assumes "vs \<noteq> []" and "NaN \<notin> set vs"
  shows "\<exists>hi. np_max vs = Some hi \<and> hi \<in> set vs \<and> (\<forall>x\<in>set vs. dle x hi)"
proof (cases vs)
  case Nil
  with assms show ?thesis by simp
next
  case (Cons v rest)
  with assms(2) have "NaN \<notin> set (v # rest)" by simp
  from fold_dmax_greatest [OF this] Cons show ?thesis by simp
qed

lemma spread_iff_distinct:
  assumes "lo \<in> set vs" "hi \<in> set vs" "\<forall>x\<in>set vs. dle lo x \<and> dle x hi"
  shows "dless lo hi \<longleftrightarrow> 1 < card (set vs)"
proof
  assume "dless lo hi"
  then have "lo \<noteq> hi" by (simp add: dless_dle)
  with assms(1,2) show "1 < card (set vs)"
    by (metis One_nat_def card_le_Suc0_iff_eq List.finite_set not_less)
next
  assume "1 < card (set vs)"
  then obtain a b where ab: "a \<in> set vs" "b \<in> set vs" "a \<noteq> b"
    by (metis One_nat_def card_le_Suc0_iff_eq List.finite_set not_less)
  have "lo \<noteq> hi"
  proof
    assume eq: "lo = hi"
    from assms(3) ab have "dle lo a" "dle a lo" "dle lo b" "dle b lo" by (simp_all add: eq)
    then have "a = lo" "b = lo" by (auto intro: dle_antisym)
    with ab(3) show False by simp
  qed
  moreover from assms(2,3) have "dle lo hi" by simp
  ultimately show "dless lo hi" by (simp add: dless_dle)
qed


lemma normalize_values_NaN: "NaN \<in> set vs \<Longrightarrow> normalize_values True vs = vs"
proof -
  assume n: "NaN \<in> set vs"
  then have "vs \<noteq> []" by auto
  from np_min_NaN [OF this n] np_max_NaN [OF this n] show ?thesis
    by (simp add: normalize_values_def)
qed

lemma normalize_values_on:
  assumes "NaN \<notin> set vs"
  shows "(1 < card (set vs) \<longrightarrow>
           (\<exists>lo hi. lo \<in> set vs \<and> hi \<in> set vs \<and> (\<forall>x\<in>set vs. dle lo x \<and> dle x hi) \<and>
              normalize_values True vs = map (\<lambda>v. ddiv (dsub v lo) (dsub hi lo)) vs))
       \<and> (card (set vs) \<le> 1 \<longrightarrow> normalize_values True vs = vs)"
proof (cases "vs = []")
  case True
  then show ?thesis by (simp add: normalize_values_def)
next
  case False
  from np_min_least [OF False assms] obtain lo where
    lo: "np_min vs = Some lo" "lo \<in> set vs" "\<forall>x\<in>set vs. dle lo x" by blast
  from np_max_greatest [OF False assms] obtain hi where
    hi: "np_max vs = Some hi" "hi \<in> set vs" "\<forall>x\<in>set vs. dle x hi" by blast
  have both: "\<forall>x\<in>set vs. dle lo x \<and> dle x hi" using lo(3) hi(3) by simp
  have sp: "dless lo hi \<longleftrightarrow> 1 < card (set vs)"
    using lo(2) hi(2) both by (rule spread_iff_distinct)
  have n: "normalize_values True vs =
             (if dless lo hi then map (\<lambda>v. ddiv (dsub v lo) (dsub hi lo)) vs else vs)"
    using False lo(1) hi(1) by (simp add: normalize_values_def)
  show ?thesis
  proof (intro conjI impI)
    assume "1 < card (set vs)"
    with sp n have "normalize_values True vs = map (\<lambda>v. ddiv (dsub v lo) (dsub hi lo)) vs"
      by simp
    with lo(2) hi(2) both
    show "\<exists>lo hi. lo \<in> set vs \<and> hi \<in> set vs \<and> (\<forall>x\<in>set vs. dle lo x \<and> dle x hi) \<and>
              normalize_values True vs = map (\<lambda>v. ddiv (dsub v lo) (dsub hi lo)) vs"
      by blast
  next
    assume "card (set vs) \<le> 1"
    with sp n show "normalize_values True vs = vs" by simp
  qed
qed

subsection \<open>Series preparation\<close>


lemma filter_rows_empty:
  "filter_rows lo hi rows = [] \<longleftrightarrow> (\<forall>p\<in>set rows. \<not> (lo \<le> fst p \<and> fst p \<le> hi))"
  by (auto simp: filter_rows_filter filter_empty_conv)

lemma prepare_lookup:
  "map_of (prepare sd st fl s e sel pd) k = Some en \<Longrightarrow>
     map_of pd k = Some en \<or>
     (\<exists>signal\<in>set sel. \<exists>rows. strip_pdu signal = k \<and> sd k = Some rows \<and>
         filter_rows s e rows \<noteq> [] \<and> en = make_entry fl st signal (filter_rows s e rows))"
proof (induction sel arbitrary: pd)
  case Nil
  then show ?case by simp
next
  case (Cons signal rest)
  show ?case
  proof (cases "no_data sd s e signal")
    case True
    then have "prepare sd st fl s e (signal # rest) pd = prepare sd st fl s e rest pd"
      by (simp add: no_data_def split: option.splits)
    with Cons show ?thesis by auto
  next
    case False
    then obtain rows where rows: "sd (strip_pdu signal) = Some rows" "filter_rows s e rows \<noteq> []"
      by (auto simp: no_data_def split: option.splits)
    let ?en = "make_entry fl st signal (filter_rows s e rows)"
    have step: "prepare sd st fl s e (signal # rest) pd =
                  prepare sd st fl s e rest (AList.update (strip_pdu signal) ?en pd)"
      using rows by simp
    from Cons.IH [of "AList.update (strip_pdu signal) ?en pd"] Cons.prems step
    consider "map_of (AList.update (strip_pdu signal) ?en pd) k = Some en"
      | "\<exists>signal\<in>set rest. \<exists>rows. strip_pdu signal = k \<and> sd k = Some rows \<and>
           filter_rows s e rows \<noteq> [] \<and> en = make_entry fl st signal (filter_rows s e rows)"
      by auto
    then show ?thesis
    proof cases
      case 1
      then show ?thesis using rows by (auto simp: update_conv' split: if_splits)
    next
      case 2
      then show ?thesis by auto
    qed
  qed
qed

lemma prepare_keys:
  "fst ` set (prepare sd st fl s e sel pd) =
     fst ` set pd \<union> {strip_pdu signal | signal. signal \<in> set sel \<and> \<not> no_data sd s e signal}"
proof (induction sel arbitrary: pd)
  case Nil
  then show ?case by simp
next
  case (Cons signal rest)
  show ?case
  proof (cases "no_data sd s e signal")
    case True
    then have "prepare sd st fl s e (signal # rest) pd = prepare sd st fl s e rest pd"
      by (simp add: no_data_def split: option.splits)
    with Cons.IH [of pd] True show ?thesis by auto
  next
    case False
    then obtain rows where rows: "sd (strip_pdu signal) = Some rows" "filter_rows s e rows \<noteq> []"
      by (auto simp: no_data_def split: option.splits)
    let ?en = "make_entry fl st signal (filter_rows s e rows)"
    have step: "prepare sd st fl s e (signal # rest) pd =
                  prepare sd st fl s e rest (AList.update (strip_pdu signal) ?en pd)"
      using rows by simp
    show ?thesis
      unfolding step Cons.IH [of "AList.update (strip_pdu signal) ?en pd"]
      using False by (auto simp: dom_update)
  qed
qed

lemma prepare_empty:
  "prepare sd st fl s e sel [] = [] \<longleftrightarrow> (\<forall>signal\<in>set sel. no_data sd s e signal)"
proof -
  have "prepare sd st fl s e sel [] = [] \<longleftrightarrow> fst ` set (prepare sd st fl s e sel []) = {}"
    by simp
  also have "\<dots> \<longleftrightarrow> (\<forall>signal\<in>set sel. no_data sd s e signal)"
    unfolding prepare_keys by auto
  finally show ?thesis .
qed






lemma run_entry:
  assumes tw: "time_window sd sel tr = Inr (start_time, end_time)"
      and mem: "signal \<in> set sel"
      and rows: "sd (strip_pdu signal) = Some rows"
      and kept: "filter_rows start_time end_time rows \<noteq> []"
  shows "\<exists>plot_data signal'.
           PlotterThread_run sd sel tr fl st = Inr plot_data \<and>
           map_of plot_data (strip_pdu signal) =
             Some (make_entry fl st signal' (filter_rows start_time end_time rows))"
proof -
  let ?pd = "prepare sd st fl start_time end_time sel []"
  from rows kept have nd: "\<not> no_data sd start_time end_time signal" by (simp add: no_data_def)
  with mem have "?pd \<noteq> []" by (auto simp: prepare_empty)
  with tw have run: "PlotterThread_run sd sel tr fl st = Inr ?pd"
    by (simp add: PlotterThread_run_def Let_def)
  from nd mem have "strip_pdu signal \<in> fst ` set ?pd" unfolding prepare_keys by auto
  then obtain entry where e: "map_of ?pd (strip_pdu signal) = Some entry"
    by (cases "map_of ?pd (strip_pdu signal)") (auto simp: map_of_eq_None_iff)
  from prepare_lookup [OF e] rows obtain signal' where
    "entry = make_entry fl st signal' (filter_rows start_time end_time rows)"
    by auto
  with run e show ?thesis by blast
qed


lemma make_entry_vals:
  "vals (make_entry fl st signal rows) = normalize_values fl (map snd rows)"
  by (simp add: make_entry_def Let_def)

lemma round_double_examples:
  "round_double 0 = Finite 0" "round_double 1 = Finite 1" "round_double 2 = Finite 2"
  "round_double 4 = Finite 4" "round_double (1 / 2) = Finite (1 / 2)"
  using round_double_exact [of 0 0] round_double_exact [of 1 0] round_double_exact [of 2 0]
    round_double_exact [of 4 0] round_double_exact [of 1 "- 1"]
  by (simp_all add: two_to_def)

text \<open>The difference of the extremes can overflow: the rescaled values are then 0 and NaN.\<close>

lemma overflow_example:
  "normalize_values True [Finite (- (2 ^ 1023)), Finite (2 ^ 1023)] = [Finite 0, NaN]"
proof -
  define B :: real where "B = 2 ^ 1023"
  have pos: "0 < B" by (simp add: B_def)
  have "round_real (1 * two_to 1024) = 1 * two_to 1024"
    using round_real_exact [of 1 1024] by simp
  moreover have "two_to 1024 = B + B" by (simp add: two_to_def B_def)
  ultimately have big: "round_real (B + B) = B + B" by simp
  have "max_double < B + B" by (simp add: max_double_def B_def)
  with big have inf: "round_double (2 * B) = PosInf" by (simp add: round_double_def Let_def)
  have "normalize_values True [Finite (- B), Finite B] = [Finite 0, NaN]"
    using pos by (simp add: normalize_values_def dmin_def dmax_def dsub_def inf round_double_examples)
  then show ?thesis by (simp only: B_def)
qed





subsection \<open>Normalisation\<close>

text \<open>
  Claim C4, as amended. For every filtered value sequence prepared with normalisation
  on: if the sequence holds no NaN and more than one distinct value, every value \<open>v\<close> is
  rescaled to \<open>(v - min) / (max - min)\<close>, computed in double arithmetic with \<open>min\<close> the
  least and \<open>max\<close> the greatest value of the sequence; if all values are equal, or the
  sequence holds a NaN, the values are left unchanged, so \<open>[5, 5, 5]\<close> stays
  \<open>[5, 5, 5]\<close>.
\<close>

theorem normalize_rescales_or_keeps:
  assumes "time_window sd sel tr = Inr (start_time, end_time)"
      and "signal \<in> set sel"
      and "sd (strip_pdu signal) = Some rows"
      and "raw = map snd (filter (\<lambda>(t, v). start_time \<le> t \<and> t \<le> end_time) rows)"
      and "raw \<noteq> []"
  shows "\<exists>plot_data entry.
           PlotterThread_run sd sel tr True st = Inr plot_data \<and>
           map_of plot_data (strip_pdu signal) = Some entry \<and>
           (NaN \<notin> set raw \<and> 1 < card (set raw) \<longrightarrow>
              (\<exists>lo hi. lo \<in> set raw \<and> hi \<in> set raw \<and> (\<forall>v\<in>set raw. dle lo v \<and> dle v hi) \<and>
                 vals entry = map (\<lambda>v. ddiv (dsub v lo) (dsub hi lo)) raw)) \<and>
           (NaN \<in> set raw \<or> card (set raw) \<le> 1 \<longrightarrow> vals entry = raw)"
proof -
  have raw: "raw = map snd (filter_rows start_time end_time rows)"
    using assms(4) by (simp add: filter_rows_filter)
  with assms(5) have kept: "filter_rows start_time end_time rows \<noteq> []" by auto
  from run_entry [OF assms(1,2,3) kept, of True st]
  obtain plot_data signal' where
    r: "PlotterThread_run sd sel tr True st = Inr plot_data"
       "map_of plot_data (strip_pdu signal) =
          Some (make_entry True st signal' (filter_rows start_time end_time rows))"
    by blast
  let ?entry = "make_entry True st signal' (filter_rows start_time end_time rows)"
  have v: "vals ?entry = normalize_values True raw" by (simp add: make_entry_vals raw)
  have a: "NaN \<notin> set raw \<and> 1 < card (set raw) \<longrightarrow>
          (\<exists>lo hi. lo \<in> set raw \<and> hi \<in> set raw \<and> (\<forall>v\<in>set raw. dle lo v \<and> dle v hi) \<and>
             vals ?entry = map (\<lambda>v. ddiv (dsub v lo) (dsub hi lo)) raw)"
    unfolding v using normalize_values_on [of raw] by blast
  have b: "NaN \<in> set raw \<or> card (set raw) \<le> 1 \<longrightarrow> vals ?entry = raw"
    unfolding v using normalize_values_on [of raw] normalize_values_NaN [of raw] by blast
  from r a b show ?thesis by blast
qed

theorem normalize_rescales_or_keeps_witness:
  "\<exists>plot_data varying steady.
      PlotterThread_run example_values [''Engine.Temp'', ''Engine.Load''] None True Map.empty
        = Inr plot_data
    \<and> map_of plot_data ''Engine.Temp'' = Some varying
    \<and> vals varying = [Finite 0, Finite (1 / 2), Finite 1]
    \<and> map_of plot_data ''Engine.Load'' = Some steady
    \<and> vals steady = [Finite 5, Finite 5, Finite 5]"
proof -
  let ?sel = "[''Engine.Temp'', ''Engine.Load'']"
  let ?temp = "[(0, Finite 1), (1, Finite 3), (2, Finite 5)] :: sample list"
  let ?load = "[(0, Finite 5), (1, Finite 5), (2, Finite 5)] :: sample list"
  have tw: "time_window example_values ?sel None = Inr (0, 2)"
    by (simp add: time_window_def all_timestamps_def example_values_def)
  have temp: "example_values (strip_pdu ''Engine.Temp'') = Some ?temp"
    and load: "example_values (strip_pdu ''Engine.Load'') = Some ?load"
    by (simp_all add: example_values_def)
  have rt: "[Finite 1, Finite 3, Finite 5] =
              map snd (filter (\<lambda>(t, v). (0::real) \<le> t \<and> t \<le> 2) ?temp)"
    and rl: "[Finite 5, Finite 5, Finite 5] =
              map snd (filter (\<lambda>(t, v). (0::real) \<le> t \<and> t \<le> 2) ?load)"
    by simp_all
  have distinct: "NaN \<notin> set [Finite 1, Finite 3, Finite 5]
                  \<and> 1 < card (set [Finite 1, Finite 3, Finite 5])"
    by (simp add: card_insert_if)
  have same: "NaN \<in> set [Finite 5, Finite 5, Finite 5]
                  \<or> card (set [Finite 5, Finite 5, Finite 5]) \<le> 1"
    by simp
  have m1: "''Engine.Temp'' \<in> set ?sel" and m2: "''Engine.Load'' \<in> set ?sel" by simp_all
  have ne1: "[Finite 1, Finite 3, Finite 5] \<noteq> []"
    and ne2: "[Finite 5, Finite 5, Finite 5] \<noteq> []" by simp_all
  from normalize_rescales_or_keeps [OF tw m1 temp rt ne1, of Map.empty]
  obtain plot_data varying where
    r: "PlotterThread_run example_values ?sel None True Map.empty = Inr plot_data"
       "map_of plot_data (strip_pdu ''Engine.Temp'') = Some varying"
    and imp: "NaN \<notin> set [Finite 1, Finite 3, Finite 5]
                \<and> 1 < card (set [Finite 1, Finite 3, Finite 5]) \<longrightarrow>
              (\<exists>lo hi. lo \<in> set [Finite 1, Finite 3, Finite 5]
                 \<and> hi \<in> set [Finite 1, Finite 3, Finite 5]
                 \<and> (\<forall>v\<in>set [Finite 1, Finite 3, Finite 5]. dle lo v \<and> dle v hi)
                 \<and> vals varying
                     = map (\<lambda>v. ddiv (dsub v lo) (dsub hi lo)) [Finite 1, Finite 3, Finite 5])"
    by blast
  from imp distinct obtain lo hi where
    lo: "lo \<in> set [Finite 1, Finite 3, Finite 5]"
    and hi: "hi \<in> set [Finite 1, Finite 3, Finite 5]"
    and bounds: "\<forall>v\<in>set [Finite 1, Finite 3, Finite 5]. dle lo v \<and> dle v hi"
    and v: "vals varying = map (\<lambda>v. ddiv (dsub v lo) (dsub hi lo)) [Finite 1, Finite 3, Finite 5]"
    by blast
  from bounds have "dle lo (Finite 1)" "dle (Finite 5) hi" by simp_all
  with lo hi have "lo = Finite 1" "hi = Finite 5" by (auto simp: dle_def)
  with v have vv: "vals varying = [Finite 0, Finite (1 / 2), Finite 1]"
    by (simp add: dsub_def round_double_examples)
  from normalize_rescales_or_keeps [OF tw m2 load rl ne2, of Map.empty]
  obtain plot_data' steady where
    r': "PlotterThread_run example_values ?sel None True Map.empty = Inr plot_data'"
        "map_of plot_data' (strip_pdu ''Engine.Load'') = Some steady"
    and imp': "NaN \<in> set [Finite 5, Finite 5, Finite 5]
                \<or> card (set [Finite 5, Finite 5, Finite 5]) \<le> 1
               \<longrightarrow> vals steady = [Finite 5, Finite 5, Finite 5]"
    by blast
  from imp' same have vc: "vals steady = [Finite 5, Finite 5, Finite 5]" by blast
  from r r' have "plot_data' = plot_data" by simp
  with r r' vv vc show ?thesis by auto
qed

text \<open>As stated for every sequence with more than one distinct value, the claim fails
  on a sequence that holds a NaN: \<^verbatim>\<open>np.min\<close> and \<^verbatim>\<open>np.max\<close> are then NaN, the test
  \<^verbatim>\<open>max_val > min_val\<close> is false and the values are left unscaled.\<close>

theorem nan_blocks_rescaling_counterexample:
  "1 < card (set [Finite 1, NaN, Finite 3])
   \<and> normalize_values True [Finite 1, NaN, Finite 3] = [Finite 1, NaN, Finite 3]
   \<and> (\<exists>plot_data entry.
         PlotterThread_run [''Engine.Temp'' \<mapsto> [(0, Finite 1), (1, NaN), (2, Finite 3)]]
           [''Engine.Temp''] None True Map.empty = Inr plot_data
       \<and> map_of plot_data ''Engine.Temp'' = Some entry
       \<and> vals entry = [Finite 1, NaN, Finite 3])"
proof -
  have n: "normalize_values True [Finite 1, NaN, Finite 3] = [Finite 1, NaN, Finite 3]"
    by (simp add: normalize_values_def dmin_def dmax_def)
  have "PlotterThread_run [''Engine.Temp'' \<mapsto> [(0, Finite 1), (1, NaN), (2, Finite 3)]]
           [''Engine.Temp''] None True Map.empty
        = Inr [(''Engine.Temp'',
                make_entry True Map.empty ''Engine.Temp''
                  [(0, Finite 1), (1, NaN), (2, Finite 3)])]"
    by (simp add: PlotterThread_run_def time_window_def all_timestamps_def filter_rows_filter
          Let_def)
  with n show ?thesis by (simp add: make_entry_vals card_insert_if)
qed

subsection \<open>Progress of the loader\<close>

lemma progress_value_range: "0 \<le> progress_value p t \<and> progress_value p t \<le> 100"
proof -
  have "0 \<le> round_real (real p / real t)" by (rule round_real_nonneg) simp
  then have "0 \<le> round_real (real p / real t) * 100" by simp
  then have "0 \<le> round_real (round_real (real p / real t) * 100)" by (rule round_real_nonneg)
  then have "0 \<le> \<lfloor>round_real (round_real (real p / real t) * 100)\<rfloor>" by simp
  then show ?thesis by (simp add: progress_value_def)
qed

text \<open>The two roundings are visible in the value: 29 messages of 100 emit 28, since the
  double nearest to 0.29 times 100 is just below 29.\<close>

lemma round_29_of_100: "round_real (29 / 100) = 5224175567749775 / 2 ^ 54"
  using round_real_down [of "- 2" "29 / 100" 5224175567749775]
  by (simp add: two_to_def)

lemma round_29_of_100_times_100: "round_real (5224175567749775 / 2 ^ 54 * 100) = 8162774324609023 / 2 ^ 48"
  using round_real_down [of 4 "5224175567749775 / 2 ^ 54 * 100" 8162774324609023]
  by (simp add: two_to_def)

lemma progress_29_of_100: "progress_value 29 100 = 28"
proof -
  have "progress_value 29 100 = min 100 \<lfloor>round_real (round_real (29 / 100) * 100)\<rfloor>"
    by (simp add: progress_value_def)
  also have "\<dots> = min 100 \<lfloor>round_real (5224175567749775 / 2 ^ 54 * 100)\<rfloor>"
    by (simp only: round_29_of_100)
  also have "\<dots> = min 100 \<lfloor>(8162774324609023 :: real) / 2 ^ 48\<rfloor>"
    by (simp only: round_29_of_100_times_100)
  also have "\<lfloor>(8162774324609023 :: real) / 2 ^ 48\<rfloor> = 28"
    by (intro floor_unique) simp_all
  finally show ?thesis by simp
qed

lemma process_message_emitted:
  assumes "process_message db t msg st = Inr st'"
  shows "emitted st' = emitted st @ (if t > 0 then [progress_value (processed_messages st + 1) t] else [])"
  using assms by (auto simp: process_message_def split: sum.splits option.splits prod.splits)

lemma read_messages_emitted_range:
  assumes "\<forall>p\<in>set (emitted st). 0 \<le> p \<and> p \<le> 100"
  shows "\<forall>p\<in>set (emitted (fst (read_messages db t ms st))). 0 \<le> p \<and> p \<le> 100"
  using assms
proof (induction ms arbitrary: st)
  case Nil
  then show ?case by simp
next
  case (Cons msg rest)
  show ?case
  proof (cases "process_message db t msg st")
    case (Inl e)
    then show ?thesis using Cons.prems by simp
  next
    case (Inr st')
    have "\<forall>p\<in>set (emitted st'). 0 \<le> p \<and> p \<le> 100"
      using Cons.prems process_message_emitted [OF Inr] progress_value_range by auto
    from Cons.IH [OF this] Inr show ?thesis by simp
  qed
qed

lemma read_messages_no_estimate:
  "emitted (fst (read_messages db 0 ms st)) = emitted st"
proof (induction ms arbitrary: st)
  case Nil
  then show ?case by simp
next
  case (Cons msg rest)
  show ?case
  proof (cases "process_message db 0 msg st")
    case (Inl e)
    then show ?thesis by simp
  next
    case (Inr st')
    with Cons.IH [of st'] process_message_emitted [OF Inr] show ?thesis by simp
  qed
qed

text \<open>The part of the loader state that does not depend on the estimate.\<close>

lemma process_message_estimate:
  assumes "messages st1 = messages st2" "signals st1 = signals st2" "printed st1 = printed st2"
  shows "(case (process_message db t1 msg st1, process_message db t2 msg st2) of
            (Inl e1, Inl e2) \<Rightarrow> e1 = e2
          | (Inr a, Inr b) \<Rightarrow> messages a = messages b \<and> signals a = signals b \<and> printed a = printed b
          | _ \<Rightarrow> False)"
  using assms by (auto simp: process_message_def split: sum.splits option.splits prod.splits)

lemma read_messages_estimate:
  assumes "messages st1 = messages st2" "signals st1 = signals st2" "printed st1 = printed st2"
  shows "messages (fst (read_messages db t1 ms st1)) = messages (fst (read_messages db t2 ms st2))
       \<and> signals (fst (read_messages db t1 ms st1)) = signals (fst (read_messages db t2 ms st2))
       \<and> printed (fst (read_messages db t1 ms st1)) = printed (fst (read_messages db t2 ms st2))
       \<and> snd (read_messages db t1 ms st1) = snd (read_messages db t2 ms st2)"
  using assms
proof (induction ms arbitrary: st1 st2)
  case Nil
  then show ?case by simp
next
  case (Cons msg rest)
  from process_message_estimate [OF Cons.prems, of db t1 msg t2]
  show ?case
  proof (cases "process_message db t1 msg st1")
    case (Inl e1)
    with process_message_estimate [OF Cons.prems, of db t1 msg t2] Cons.prems
    show ?thesis by (cases "process_message db t2 msg st2") simp_all
  next
    case a: (Inr a)
    show ?thesis
    proof (cases "process_message db t2 msg st2")
      case (Inl e2)
      with process_message_estimate [OF Cons.prems, of db t1 msg t2] a show ?thesis by simp
    next
      case b: (Inr b)
      with process_message_estimate [OF Cons.prems, of db t1 msg t2] a
      have "messages a = messages b" "signals a = signals b" "printed a = printed b" by simp_all
      from Cons.IH [OF this] a b show ?thesis by simp
    qed
  qed
qed

text \<open>
  Claim C9. Every progress value the loader emits is an integer between 0 and 100,
  whatever the line count is compared with the number of frames; with a line count of
  zero, or none, nothing is emitted; and the terminal outcome (frame table and series
  map, or the error) and the diagnostics are the same for every line count.
\<close>

theorem progress_between_0_and_100:
  "(\<forall>p\<in>set (progress (LogLoaderThread_run ext db line_count reader)). 0 \<le> p \<and> p \<le> 100)
   \<and> (line_count = None \<or> line_count = Some 0 \<longrightarrow>
        progress (LogLoaderThread_run ext db line_count reader) = [])
   \<and> outcome (LogLoaderThread_run ext db line_count reader)
       = outcome (LogLoaderThread_run ext db line_count' reader)
   \<and> diagnostics (LogLoaderThread_run ext db line_count reader)
       = diagnostics (LogLoaderThread_run ext db line_count' reader)"
proof -
  define r where "r lc = read_messages db (case lc of Some n \<Rightarrow> n | None \<Rightarrow> 0) reader
      \<lparr> messages = [], signals = Map.empty, processed_messages = 0, emitted = [], printed = [] \<rparr>"
    for lc
  have run: "LogLoaderThread_run ext db lc reader =
      (if ext \<noteq> ''.asc'' \<and> ext \<noteq> ''.blf'' \<and> ext \<noteq> ''.csv''
       then \<lparr> progress = [], diagnostics = [], outcome = Error UnsupportedFormat \<rparr>
       else \<lparr> progress = emitted (fst (r lc)), diagnostics = printed (fst (r lc)),
              outcome = (case snd (r lc) of Some e \<Rightarrow> Error e
                         | None \<Rightarrow> Finished (messages (fst (r lc))) (signals (fst (r lc)))) \<rparr>)"
    for lc
    by (auto simp: LogLoaderThread_run_def r_def Let_def split_beta split: option.splits)
  have range: "\<forall>p\<in>set (emitted (fst (r line_count))). 0 \<le> p \<and> p \<le> 100"
    unfolding r_def by (rule read_messages_emitted_range) simp
  have none: "emitted (fst (r lc)) = []" if "lc = None \<or> lc = Some 0" for lc
    using that unfolding r_def by (auto simp: read_messages_no_estimate)
  have same: "messages (fst (r line_count)) = messages (fst (r line_count'))"
      "signals (fst (r line_count)) = signals (fst (r line_count'))"
      "printed (fst (r line_count)) = printed (fst (r line_count'))"
      "snd (r line_count) = snd (r line_count')"
    unfolding r_def by (rule read_messages_estimate [THEN conjunct1], simp_all)
      (rule read_messages_estimate [THEN conjunct2, THEN conjunct1], simp_all,
       rule read_messages_estimate [THEN conjunct2, THEN conjunct2, THEN conjunct1], simp_all,
       rule read_messages_estimate [THEN conjunct2, THEN conjunct2, THEN conjunct2], simp_all)
  show ?thesis
  proof (intro conjI impI)
    show "\<forall>p\<in>set (progress (LogLoaderThread_run ext db line_count reader)). 0 \<le> p \<and> p \<le> 100"
      using range by (simp add: run)
    show "progress (LogLoaderThread_run ext db line_count reader) = []"
      if "line_count = None \<or> line_count = Some 0"
      using none [OF that] by (simp add: run)
    show "outcome (LogLoaderThread_run ext db line_count reader)
            = outcome (LogLoaderThread_run ext db line_count' reader)"
      by (simp add: run same cong: option.case_cong)
    show "diagnostics (LogLoaderThread_run ext db line_count reader)
            = diagnostics (LogLoaderThread_run ext db line_count' reader)"
      by (simp add: run same)
  qed
qed

theorem progress_between_0_and_100_witness:
  "progress (LogLoaderThread_run ''.asc'' None (Some 2)
      [example_msg 0 256 [1], example_msg 1 256 [2], example_msg 2 256 [3]]) = [50, 100, 100]
   \<and> progress (LogLoaderThread_run ''.asc'' None (Some 0)
      [example_msg 0 256 [1], example_msg 1 256 [2], example_msg 2 256 [3]]) = []
   \<and> outcome (LogLoaderThread_run ''.asc'' None (Some 2)
      [example_msg 0 256 [1], example_msg 1 256 [2], example_msg 2 256 [3]])
     = outcome (LogLoaderThread_run ''.asc'' None (Some 0)
      [example_msg 0 256 [1], example_msg 1 256 [2], example_msg 2 256 [3]])"
proof -
  let ?ms = "[example_msg 0 256 [1], example_msg 1 256 [2], example_msg 2 256 [3]]"
  have exact: "round_real (1 / 2) = 1 / 2" "round_real 50 = 50" "round_real 1 = 1"
      "round_real 100 = 100" "round_real (3 / 2) = 3 / 2" "round_real 150 = 150"
    using round_real_exact [of 1 "- 1"] round_real_exact [of 50 0] round_real_exact [of 1 0]
      round_real_exact [of 100 0] round_real_exact [of 3 "- 1"] round_real_exact [of 150 0]
    by (simp_all add: two_to_def)
  have v1: "progress_value (Suc 0) 2 = 50" by (simp add: progress_value_def exact)
  have v2: "progress_value (Suc (Suc 0)) 2 = 100" by (simp add: progress_value_def exact)
  have v3: "progress_value (Suc (Suc (Suc 0))) 2 = 100" by (simp add: progress_value_def exact)
  have p: "progress (LogLoaderThread_run ''.asc'' None (Some 2) ?ms) = [50, 100, 100]"
    by (simp add: LogLoaderThread_run_def process_message_def decode_raw_def example_msg_def
          v1 v2 v3 Let_def split_beta)
  from progress_between_0_and_100 [of "''.asc''" None "Some 2" ?ms "Some 0"]
       progress_between_0_and_100 [of "''.asc''" None "Some 0" ?ms "Some 0"] p
  show ?thesis by simp
qed

subsection \<open>Starting the plotter\<close>

text \<open>
  Claim C10. With a custom time window whose start is not less than its end,
  \<^verbatim>\<open>plot_signals\<close> ends with a warning: no plotter thread is created, so no preparation
  runs and no output mapping is produced, and the stored frame table and series map are
  left as they were.
\<close>

theorem custom_window_rejected:
  assumes "time_range_combo a = ''Custom''" and "start_time_spin a \<ge> end_time_spin a"
  shows "(\<exists>w. fst (plot_signals a update) = Warning w)
       \<and> plotter_thread (snd (plot_signals a update)) = plotter_thread a
       \<and> log_data (snd (plot_signals a update)) = log_data a
       \<and> signals_data (snd (plot_signals a update)) = signals_data a"
  using assms
  by (auto simp: plot_signals_def choose_time_range_def Let_def)

theorem custom_window_rejected_witness:
  "time_range_combo (example_app example_store 5 5) = ''Custom''
   \<and> start_time_spin (example_app example_store 5 5) \<ge> end_time_spin (example_app example_store 5 5)
   \<and> fst (plot_signals (example_app example_store 5 5) False) = Warning StartNotLessThanEnd
   \<and> plotter_thread (snd (plot_signals (example_app example_store 5 5) False)) = None
   \<and> signals_data (snd (plot_signals (example_app example_store 5 5) False)) = example_store"
proof -
  have h1: "time_range_combo (example_app example_store 5 5) = ''Custom''" by (simp add: example_app_def)
  have h2: "start_time_spin (example_app example_store 5 5) \<ge> end_time_spin (example_app example_store 5 5)"
    by (simp add: example_app_def)
  have w: "fst (plot_signals (example_app example_store 5 5) False) = Warning StartNotLessThanEnd"
    by (simp add: plot_signals_def valid_signals_def choose_time_range_def example_app_def
          example_store_def Let_def)
  from custom_window_rejected [OF h1 h2, of False] h1 h2 w
  show ?thesis by (simp add: example_app_def)
qed

subsection \<open>Decoding without a schema\<close>

text \<open>The decimal rendering of the byte index is injective, so distinct indices of one
  frame have distinct keys.\<close>

lemma lt10: "(d::nat) < 10 \<Longrightarrow> d \<in> {0, 1, 2, 3, 4, 5, 6, 7, 8, 9}"
proof -
  assume "d < 10"
  then have "d \<in> set [0..<10]" by simp
  also have "[0..<10] = [0, 1, 2, 3, 4, 5, 6, 7, 8, 9 :: nat]" by code_simp
  finally show ?thesis by simp
qed

lemma dec_digit_inj: "a < 10 \<Longrightarrow> b < 10 \<Longrightarrow> dec_digit a = dec_digit b \<Longrightarrow> a = b"
proof -
  assume "a < 10" "b < 10" and eq: "dec_digit a = dec_digit b"
  then have a: "a \<in> {0, 1, 2, 3, 4, 5, 6, 7, 8, 9}" and b: "b \<in> {0, 1, 2, 3, 4, 5, 6, 7, 8, 9}"
    by (simp_all only: lt10)
  from a eq b show ?thesis
    unfolding dec_digit_def by (elim insertE emptyE; simp; elim insertE emptyE; simp)
qed

lemma dec_nat_small: "n < 10 \<Longrightarrow> dec_nat n = [dec_digit n]"
  by (subst dec_nat.simps) simp

lemma dec_nat_big: "\<not> n < 10 \<Longrightarrow> dec_nat n = dec_nat (n div 10) @ [dec_digit (n mod 10)]"
  by (subst dec_nat.simps) simp

lemma dec_nat_nonempty: "dec_nat n \<noteq> []"
  by (cases "n < 10") (simp_all add: dec_nat_small dec_nat_big)

lemma dec_nat_single: "length (dec_nat n) = Suc 0 \<longleftrightarrow> n < 10"
  using dec_nat_nonempty [of "n div 10"]
  by (cases "n < 10") (simp_all add: dec_nat_small dec_nat_big)

lemma dec_nat_inj: "dec_nat m = dec_nat n \<Longrightarrow> m = n"
proof (induction m arbitrary: n rule: dec_nat.induct)
  case (1 m)
  show ?case
  proof (cases "m < 10")
    case True
    then have "length (dec_nat m) = Suc 0" by (simp add: dec_nat_single)
    with "1.prems" have n: "n < 10" by (simp add: dec_nat_single)
    from "1.prems" True n have "dec_digit m = dec_digit n"
      by (simp add: dec_nat_small)
    with True n show ?thesis by (rule dec_digit_inj)
  next
    case False
    then have "length (dec_nat m) \<noteq> Suc 0" by (simp add: dec_nat_single)
    with "1.prems" have n: "\<not> n < 10" by (simp add: dec_nat_single)
    from "1.prems" False n
    have eq: "dec_nat (m div 10) = dec_nat (n div 10)" "dec_digit (m mod 10) = dec_digit (n mod 10)"
      by (simp_all add: dec_nat_big)
    from "1.IH" [OF False eq(1)] have "m div 10 = n div 10" .
    moreover from eq(2) have "m mod 10 = n mod 10" by (intro dec_digit_inj) simp_all
    ultimately show ?thesis by (metis div_mult_mod_eq)
  qed
qed

lemma byte_key_inj: "byte_key ident i = byte_key ident j \<longleftrightarrow> i = j"
  by (auto simp: byte_key_def dest: dec_nat_inj)

lemma series_ensure_key: "series (ensure_key k sd) k' = series sd k'"
  by (simp add: series_def ensure_key_def)

lemma append_ensure_apply:
  "append_sample k s (ensure_key k sd) k' =
     (if k' = k then Some (series sd k @ [s]) else sd k')"
  by (simp add: append_sample_def series_ensure_key) (simp add: ensure_key_def)

lemma series_append_ensure:
  "series (append_sample k s (ensure_key k sd)) k' =
     (if k' = k then series sd k @ [s] else series sd k')"
  by (simp add: series_def append_ensure_apply)

lemma store_bytes_result:
  assumes "\<forall>i\<in>set ixs. i < length (data msg)" and "distinct ixs"
  shows "\<exists>sd'. store_bytes msg ixs sd = Inr sd'
           \<and> (\<forall>i\<in>set ixs. sd' (byte_key (arbitration_id msg) i)
                  = Some (series sd (byte_key (arbitration_id msg) i)
                          @ [(timestamp msg, Finite (real (unat (data msg ! i))))]))
           \<and> (\<forall>k. k \<notin> byte_key (arbitration_id msg) ` set ixs \<longrightarrow> sd' k = sd k)"
  using assms
proof (induction ixs arbitrary: sd)
  case Nil
  then show ?case by simp
next
  case (Cons i rest)
  let ?key = "byte_key (arbitration_id msg)"
  let ?smp = "\<lambda>i. (timestamp msg, Finite (real (unat (data msg ! i))))"
  let ?sd1 = "append_sample (?key i) (?smp i) (ensure_key (?key i) sd)"
  from Cons.prems have i: "i < length (data msg)" and fresh: "i \<notin> set rest" by simp_all
  from Cons.prems have "\<forall>j\<in>set rest. j < length (data msg)" "distinct rest" by simp_all
  from Cons.IH [OF this, of ?sd1] obtain sd' where
    r: "store_bytes msg rest ?sd1 = Inr sd'"
    and in_rest: "\<forall>j\<in>set rest. sd' (?key j) = Some (series ?sd1 (?key j) @ [?smp j])"
    and out_rest: "\<forall>k. k \<notin> ?key ` set rest \<longrightarrow> sd' k = ?sd1 k"
    by blast
  have step: "store_bytes msg (i # rest) sd = Inr sd'"
    using i r by (simp add: Let_def)
  have not_in: "?key i \<notin> ?key ` set rest"
    using fresh by (auto simp: byte_key_inj)
  have head: "sd' (?key i) = Some (series sd (?key i) @ [?smp i])"
    using out_rest not_in by (simp add: append_ensure_apply)
  have tail: "sd' (?key j) = Some (series sd (?key j) @ [?smp j])" if "j \<in> set rest" for j
  proof -
    from that fresh have "j \<noteq> i" by auto
    then have "series ?sd1 (?key j) = series sd (?key j)"
      by (simp add: series_append_ensure byte_key_inj)
    with in_rest that show ?thesis by simp
  qed
  have other: "sd' k = sd k" if "k \<notin> ?key ` set (i # rest)" for k
    using that out_rest by (simp add: append_ensure_apply)
  from step head tail other show ?case by auto
qed

text \<open>
  Claim C6, as amended. For a frame decoded without a schema whose declared length does
  not exceed the length of its payload, decoding appends exactly one sample for each
  byte index \<open>i\<close> below the declared length, under the key
  \<^verbatim>\<open>ID_0x<hex identifier>.Byte<i>\<close>, with the frame's timestamp and the unscaled byte
  at index \<open>i\<close> as value, and changes no other key.
\<close>

theorem raw_bytes_one_sample_per_index:
  assumes "dlc msg \<le> int (length (data msg))"
  shows "\<exists>sd'. decode_raw msg sd = Inr sd'
           \<and> (\<forall>i<nat (dlc msg). sd' (byte_key (arbitration_id msg) i)
                  = Some (series sd (byte_key (arbitration_id msg) i)
                          @ [(timestamp msg, Finite (real (unat (data msg ! i))))]))
           \<and> (\<forall>k. (\<forall>i<nat (dlc msg). k \<noteq> byte_key (arbitration_id msg) i) \<longrightarrow> sd' k = sd k)"
proof -
  have "\<forall>i\<in>set [0..<nat (dlc msg)]. i < length (data msg)" using assms by auto
  from store_bytes_result [OF this, of sd]
  show ?thesis unfolding decode_raw_def by (auto simp: image_iff)
qed

theorem raw_bytes_one_sample_per_index_witness:
  "dlc (example_msg 3 256 [10, 255]) \<le> int (length (data (example_msg 3 256 [10, 255])))
   \<and> (\<exists>sd'. decode_raw (example_msg 3 256 [10, 255]) Map.empty = Inr sd'
        \<and> sd' ''ID_0x100.Byte0'' = Some [(3, Finite 10)]
        \<and> sd' ''ID_0x100.Byte1'' = Some [(3, Finite 255)]
        \<and> sd' ''ID_0x100.Byte2'' = None)"
proof -
  let ?m = "example_msg 3 256 [10, 255]"
  have h: "dlc ?m \<le> int (length (data ?m))" by (simp add: example_msg_def)
  have k: "byte_key (arbitration_id ?m) 0 = ''ID_0x100.Byte0''"
      "byte_key (arbitration_id ?m) 1 = ''ID_0x100.Byte1''"
    by (simp_all add: example_msg_def byte_key_def format_X_def hex_nat.simps dec_nat.simps
          hex_digit_def dec_digit_def)
  have n: "\<forall>i<nat (dlc ?m). ''ID_0x100.Byte2'' \<noteq> byte_key (arbitration_id ?m) i"
    by (simp add: example_msg_def byte_key_def format_X_def hex_nat.simps dec_nat.simps
          hex_digit_def dec_digit_def less_Suc_eq numeral_2_eq_2)
  from raw_bytes_one_sample_per_index [OF h, of Map.empty] obtain sd' where
    r: "decode_raw ?m Map.empty = Inr sd'"
    and a: "\<forall>i<nat (dlc ?m). sd' (byte_key (arbitration_id ?m) i)
                  = Some (series Map.empty (byte_key (arbitration_id ?m) i)
                          @ [(timestamp ?m, Finite (real (unat (data ?m ! i))))])"
    and b: "\<forall>k. (\<forall>i<nat (dlc ?m). k \<noteq> byte_key (arbitration_id ?m) i) \<longrightarrow> sd' k = Map.empty k"
    by blast
  have d: "nat (dlc ?m) = 2" by (simp add: example_msg_def)
  from a [rule_format, of 0] a [rule_format, of 1] k d
  have "sd' ''ID_0x100.Byte0'' = Some [(3, Finite 10)]" "sd' ''ID_0x100.Byte1'' = Some [(3, Finite 255)]"
    by (simp_all add: series_def example_msg_def)
  moreover from b [rule_format, of "''ID_0x100.Byte2''"] n
  have "sd' ''ID_0x100.Byte2'' = None" by simp
  ultimately show ?thesis using h r by blast
qed

text \<open>As stated for every frame, the claim fails on a frame that declares more bytes
  than it carries (a remote frame): reading the missing byte raises, no sample is emitted
  and the load ends with an error.\<close>

theorem raw_bytes_counterexample:
  "decode_raw \<lparr> timestamp = 0, arbitration_id = 256, data = [], dlc = 1, channel = Some (ChannelNumber 0),
                is_fd = Some False, bitrate_switch = Some False \<rparr> Map.empty = Inl IndexError
   \<and> outcome (LogLoaderThread_run ''.asc'' None (Some 1)
        [\<lparr> timestamp = 0, arbitration_id = 256, data = [], dlc = 1, channel = Some (ChannelNumber 0),
           is_fd = Some False, bitrate_switch = Some False \<rparr>]) = Error IndexError"
  by (simp add: LogLoaderThread_run_def process_message_def decode_raw_def Let_def)

subsection \<open>Decoding with a schema\<close>

lemma store_decoded_series:
  "series (fst (store_decoded m ts items sd dg)) k =
     series sd k @ concat (map (\<lambda>(n, v). item_samples ts v)
                             (filter (\<lambda>(n, v). signal_key m n = k) (reached items)))"
proof (induction items arbitrary: sd dg)
  case Nil
  then show ?case by simp
next
  case (Cons item items)
  obtain n v where item: "item = (n, v)" by (cases item)
  show ?case
  proof (cases v)
    case PyNone
    with item Cons.IH show ?thesis by (simp add: Let_def series_append_ensure)
  next
    case (Numeric x)
    with item Cons.IH show ?thesis by (simp add: Let_def series_append_ensure)
  next
    case (NonNumeric e)
    with item Cons.IH show ?thesis by (cases e) (simp_all add: Let_def series_ensure_key)
  qed
qed

lemma store_decoded_diagnostics:
  "snd (store_decoded m ts items sd dg) =
     dg @ concat (map (\<lambda>(n, v). item_diagnostics m (signal_key m n) v) (reached items))"
proof (induction items arbitrary: sd dg)
  case Nil
  then show ?case by simp
next
  case (Cons item items)
  obtain n v where item: "item = (n, v)" by (cases item)
  show ?case
  proof (cases v)
    case PyNone
    with item Cons.IH show ?thesis by (simp add: Let_def)
  next
    case (Numeric x)
    with item Cons.IH show ?thesis by (simp add: Let_def)
  next
    case (NonNumeric e)
    with item Cons.IH show ?thesis by (cases e) (simp_all add: Let_def)
  qed
qed

lemma reached_all:
  "\<forall>(n, v)\<in>set items. to_float v \<noteq> Inl OtherError \<Longrightarrow> reached items = items"
  by (induction items) auto

text \<open>
  Claim C1, as amended. For a frame decoded in schema mode, every value of the decoded
  dictionary that the loop reaches contributes either one sample or one diagnostic,
  never both: a value on which \<^verbatim>\<open>float\<close> raises is dropped with a diagnostic and no
  sample is stored for it; a value that converts is stored; and a \<^verbatim>\<open>None\<close> value is
  not dropped but stored as a sample with value 0. The loop reaches every value up to
  and including the first whose conversion raises an exception other than
  \<^verbatim>\<open>TypeError\<close> and \<^verbatim>\<open>ValueError\<close>; a value it does not reach contributes nothing.
\<close>

theorem decoded_value_sample_or_diagnostic:
  assumes "db (arbitration_id msg) = Found message"
      and "decode message (data msg) = Some decoded"
  shows "series (fst (decode_with_db db msg sd dg)) k =
           series sd k @ concat (map (\<lambda>(n, v). item_samples (timestamp msg) v)
                                   (filter (\<lambda>(n, v). signal_key (name message) n = k)
                                      (reached decoded)))
       \<and> snd (decode_with_db db msg sd dg) =
           dg @ concat (map (\<lambda>(n, v). item_diagnostics (name message)
                                          (signal_key (name message) n) v)
                          (reached decoded))"
  using assms
  by (simp add: decode_with_db_def store_decoded_series store_decoded_diagnostics)

theorem decoded_value_sample_or_diagnostic_witness:
  "example_db (Some [(''RPM'', NonNumeric ValueError), (''Load'', PyNone), (''Temp'', Numeric (Finite 90))])
      (arbitration_id (example_msg 4 256 [1])) =
     Found \<lparr> name = ''Engine'',
             decode = (\<lambda>payload. Some [(''RPM'', NonNumeric ValueError), (''Load'', PyNone),
                                        (''Temp'', Numeric (Finite 90))]) \<rparr>
   \<and> series (fst (decode_with_db
        (example_db (Some [(''RPM'', NonNumeric ValueError), (''Load'', PyNone), (''Temp'', Numeric (Finite 90))]))
        (example_msg 4 256 [1]) Map.empty [])) ''Engine.RPM'' = []
   \<and> series (fst (decode_with_db
        (example_db (Some [(''RPM'', NonNumeric ValueError), (''Load'', PyNone), (''Temp'', Numeric (Finite 90))]))
        (example_msg 4 256 [1]) Map.empty [])) ''Engine.Load'' = [(4, Finite 0)]
   \<and> series (fst (decode_with_db
        (example_db (Some [(''RPM'', NonNumeric ValueError), (''Load'', PyNone), (''Temp'', Numeric (Finite 90))]))
        (example_msg 4 256 [1]) Map.empty [])) ''Engine.Temp'' = [(4, Finite 90)]
   \<and> snd (decode_with_db
        (example_db (Some [(''RPM'', NonNumeric ValueError), (''Load'', PyNone), (''Temp'', Numeric (Finite 90))]))
        (example_msg 4 256 [1]) Map.empty []) = [NonNumericValue ''Engine.RPM'']"
proof -
  let ?items = "[(''RPM'', NonNumeric ValueError), (''Load'', PyNone), (''Temp'', Numeric (Finite 90))]"
  let ?message = "\<lparr> name = ''Engine'', decode = (\<lambda>payload :: 8 word list. Some ?items) \<rparr>"
  have f: "example_db (Some ?items) (arbitration_id (example_msg 4 256 [1])) = Found ?message"
    by (simp add: example_db_def example_msg_def)
  have d: "decode ?message (data (example_msg 4 256 [1])) = Some ?items" by simp
  have main: "series (fst (decode_with_db (example_db (Some ?items)) (example_msg 4 256 [1])
                            Map.empty [])) k =
           series Map.empty k @ concat (map (\<lambda>(n, v). item_samples (timestamp (example_msg 4 256 [1])) v)
                                   (filter (\<lambda>(n, v). signal_key (name ?message) n = k)
                                      (reached ?items)))
       \<and> snd (decode_with_db (example_db (Some ?items)) (example_msg 4 256 [1]) Map.empty []) =
           [] @ concat (map (\<lambda>(n, v). item_diagnostics (name ?message)
                                          (signal_key (name ?message) n) v)
                          (reached ?items))" for k
    using f d by (rule decoded_value_sample_or_diagnostic)
  from main [of "''Engine.RPM''"] main [of "''Engine.Load''"] main [of "''Engine.Temp''"] f
  show ?thesis
    by (simp add: series_def signal_key_def example_msg_def)
qed

text \<open>As stated for every non-numeric value, the claim fails on \<^verbatim>\<open>None\<close>: a sample
  with value 0 is stored for it and no diagnostic is recorded.\<close>

theorem none_value_stored_counterexample:
  "series (fst (decode_with_db (example_db (Some [(''RPM'', PyNone)]))
                  (example_msg 4 256 [1]) Map.empty [])) ''Engine.RPM'' = [(4, Finite 0)]
   \<and> snd (decode_with_db (example_db (Some [(''RPM'', PyNone)]))
            (example_msg 4 256 [1]) Map.empty []) = []"
  by (simp add: decode_with_db_def example_db_def example_msg_def Let_def signal_key_def
        series_def append_sample_def ensure_key_def)

lemma store_decoded_all:
  assumes "\<forall>(n, v)\<in>set items. to_float v \<noteq> Inl OtherError"
  shows "series (fst (store_decoded m ts items sd dg)) k =
           series sd k @ concat (map (\<lambda>(n, v). item_samples ts v)
                                   (filter (\<lambda>(n, v). signal_key m n = k) items))"
  using reached_all [OF assms] store_decoded_series [of m ts items sd dg k] by simp

lemma item_samples_to_float: "to_float v = Inr x \<Longrightarrow> item_samples ts v = [(ts, x)]"
  by (cases v) auto

text \<open>
  Claim C8, as amended. In schema mode, a signal whose value fails the conversion with
  \<^verbatim>\<open>TypeError\<close> or \<^verbatim>\<open>ValueError\<close> is skipped alone: as long as no conversion of the
  frame raises another exception, every signal of the decoded dictionary whose value
  converts has its sample stored. When \<^verbatim>\<open>message.decode\<close> itself raises, the frame
  stores nothing and one diagnostic is recorded.
\<close>

theorem sibling_signals_still_stored:
  assumes "db (arbitration_id msg) = Found message"
  shows "(\<forall>decoded n v x.
            decode message (data msg) = Some decoded \<longrightarrow>
            (\<forall>(n', v')\<in>set decoded. to_float v' \<noteq> Inl OtherError) \<longrightarrow>
            (n, v) \<in> set decoded \<longrightarrow> to_float v = Inr x \<longrightarrow>
            (timestamp msg, x)
              \<in> set (series (fst (decode_with_db db msg sd dg)) (signal_key (name message) n)))
       \<and> (decode message (data msg) = None \<longrightarrow>
            decode_with_db db msg sd dg = (sd, dg @ [DecodingFailed (name message)]))"
proof (intro conjI allI impI)
  fix decoded n v x
  assume d: "decode message (data msg) = Some decoded"
     and ok: "\<forall>(n', v')\<in>set decoded. to_float v' \<noteq> Inl OtherError"
     and mem: "(n, v) \<in> set decoded" and conv: "to_float v = Inr x"
  let ?k = "signal_key (name message) n"
  have "series (fst (decode_with_db db msg sd dg)) ?k =
          series sd ?k @ concat (map (\<lambda>(n, v). item_samples (timestamp msg) v)
                                   (filter (\<lambda>(n', v). signal_key (name message) n' = ?k) decoded))"
    using assms d by (simp add: decode_with_db_def store_decoded_all [OF ok])
  moreover have "(timestamp msg, x) \<in> set (concat (map (\<lambda>(n, v). item_samples (timestamp msg) v)
                                   (filter (\<lambda>(n', v). signal_key (name message) n' = ?k) decoded)))"
    using mem item_samples_to_float [OF conv, of "timestamp msg"] by force
  ultimately show "(timestamp msg, x)
      \<in> set (series (fst (decode_with_db db msg sd dg)) ?k)" by simp
next
  assume "decode message (data msg) = None"
  with assms show "decode_with_db db msg sd dg = (sd, dg @ [DecodingFailed (name message)])"
    by (simp add: decode_with_db_def)
qed

theorem sibling_signals_still_stored_witness:
  "series (fst (decode_with_db
        (example_db (Some [(''RPM'', NonNumeric TypeError), (''Temp'', Numeric (Finite 90))]))
        (example_msg 4 256 [1]) Map.empty [])) ''Engine.RPM'' = []
   \<and> (4, Finite 90) \<in> set (series (fst (decode_with_db
        (example_db (Some [(''RPM'', NonNumeric TypeError), (''Temp'', Numeric (Finite 90))]))
        (example_msg 4 256 [1]) Map.empty [])) ''Engine.Temp'')
   \<and> decode_with_db (example_db None) (example_msg 4 256 [1]) Map.empty []
       = (Map.empty, [DecodingFailed ''Engine''])"
proof -
  let ?items = "[(''RPM'', NonNumeric TypeError), (''Temp'', Numeric (Finite 90))]"
  let ?msg = "example_msg 4 256 [1]"
  let ?message = "\<lambda>r. \<lparr> name = ''Engine'', decode = (\<lambda>payload :: 8 word list. r) \<rparr>"
  have f: "example_db r (arbitration_id ?msg) = Found (?message r)" for r
    by (simp add: example_db_def example_msg_def)
  have a: "(\<forall>decoded n v x.
            decode (?message (Some ?items)) (data ?msg) = Some decoded \<longrightarrow>
            (\<forall>(n', v')\<in>set decoded. to_float v' \<noteq> Inl OtherError) \<longrightarrow>
            (n, v) \<in> set decoded \<longrightarrow> to_float v = Inr x \<longrightarrow>
            (timestamp ?msg, x)
              \<in> set (series (fst (decode_with_db (example_db (Some ?items)) ?msg Map.empty []))
                       (signal_key (name (?message (Some ?items))) n)))
       \<and> (decode (?message (Some ?items)) (data ?msg) = None \<longrightarrow>
            decode_with_db (example_db (Some ?items)) ?msg Map.empty []
              = (Map.empty, [] @ [DecodingFailed (name (?message (Some ?items)))]))"
    using f [of "Some ?items"] by (rule sibling_signals_still_stored)
  have b: "(\<forall>decoded n v x.
            decode (?message None) (data ?msg) = Some decoded \<longrightarrow>
            (\<forall>(n', v')\<in>set decoded. to_float v' \<noteq> Inl OtherError) \<longrightarrow>
            (n, v) \<in> set decoded \<longrightarrow> to_float v = Inr x \<longrightarrow>
            (timestamp ?msg, x)
              \<in> set (series (fst (decode_with_db (example_db None) ?msg Map.empty []))
                       (signal_key (name (?message None)) n)))
       \<and> (decode (?message None) (data ?msg) = None \<longrightarrow>
            decode_with_db (example_db None) ?msg Map.empty []
              = (Map.empty, [] @ [DecodingFailed (name (?message None))]))"
    using f [of None] by (rule sibling_signals_still_stored)
  from a have "(4, Finite 90) \<in> set (series (fst (decode_with_db (example_db (Some ?items)) ?msg
                                     Map.empty [])) ''Engine.Temp'')"
    by (simp add: signal_key_def example_msg_def)
  moreover from b have "decode_with_db (example_db None) ?msg Map.empty []
       = (Map.empty, [DecodingFailed ''Engine''])" by simp
  moreover have "series (fst (decode_with_db (example_db (Some ?items)) ?msg Map.empty []))
                   ''Engine.RPM'' = []"
    by (simp add: decode_with_db_def example_db_def example_msg_def Let_def signal_key_def
          series_def append_sample_def ensure_key_def)
  ultimately show ?thesis by blast
qed

text \<open>As stated, the claim fails: a conversion that raises another exception ends the
  loop, so a later signal of the same frame is not stored although its value converts;
  and a failure inside \<^verbatim>\<open>message.decode\<close> leaves the frame without any sample.\<close>

theorem sibling_signal_lost_counterexample:
  "series (fst (decode_with_db
        (example_db (Some [(''RPM'', NonNumeric OtherError), (''Temp'', Numeric (Finite 90))]))
        (example_msg 4 256 [1]) Map.empty [])) ''Engine.Temp'' = []
   \<and> snd (decode_with_db
        (example_db (Some [(''RPM'', NonNumeric OtherError), (''Temp'', Numeric (Finite 90))]))
        (example_msg 4 256 [1]) Map.empty []) = [DecodingFailed ''Engine'']
   \<and> fst (decode_with_db (example_db None) (example_msg 4 256 [1]) Map.empty []) = Map.empty"
  by (simp add: decode_with_db_def example_db_def example_msg_def Let_def signal_key_def
        series_def ensure_key_def)

subsection \<open>The series map of a finished load\<close>










text \<open>The hypothesis on the decoder is needed in the model: the key is created before
  the conversion is tried, so a decoder returning a value on which \<^verbatim>\<open>float\<close> raises,
  which cantools does not do here, would leave a key with an empty series.\<close>

lemma dropped_value_leaves_empty_series:
  "outcome (LogLoaderThread_run ''.asc''
              (Some (example_db (Some [(''RPM'', NonNumeric ValueError)])))
              (Some 1) [example_msg 4 256 [1]])
     = Finished [make_msg_data (example_msg 4 256 [1])] [''Engine.RPM'' \<mapsto> []]"
  by (simp add: LogLoaderThread_run_def process_message_def decode_with_db_def example_db_def
        example_msg_def Let_def signal_key_def ensure_key_def)

subsection \<open>Fallback to the full range\<close>

text \<open>The keys that the loader creates do not contain the display prefix, so stripping
  them again changes nothing: always without a database, and with a database when the
  names of the message and of the signal hold no bracket, as the identifiers of a DBC
  file.\<close>

lemma strip_pdu_no_bracket: "CHR ''['' \<notin> set s \<Longrightarrow> strip_pdu s = s"
  by (induction s rule: strip_pdu.induct) auto

lemma hex_digit_no_bracket: "d < 16 \<Longrightarrow> hex_digit d \<noteq> CHR ''[''"
proof -
  assume "d < 16"
  then have "d \<in> set [0..<16]" by simp
  also have "[0..<16] = [0, 1, 2, 3, 4, 5, 6, 7, 8, 9, 10, 11, 12, 13, 14, 15 :: nat]"
    by code_simp
  finally have "d \<in> {0, 1, 2, 3, 4, 5, 6, 7, 8, 9, 10, 11, 12, 13, 14, 15}" by simp
  then show ?thesis unfolding hex_digit_def by (elim insertE emptyE; simp)
qed

lemma dec_digit_no_bracket: "d < 10 \<Longrightarrow> dec_digit d \<noteq> CHR ''[''"
proof -
  assume "d < 10"
  then have "d \<in> {0, 1, 2, 3, 4, 5, 6, 7, 8, 9}" by (rule lt10)
  then show ?thesis unfolding dec_digit_def by (elim insertE emptyE; simp)
qed

lemma hex_nat_no_bracket: "CHR ''['' \<notin> set (hex_nat n)"
proof (induction n rule: hex_nat.induct)
  case (1 n)
  show ?case
  proof (cases "n < 16")
    case True
    then show ?thesis using hex_digit_no_bracket [of n] by (subst hex_nat.simps) auto
  next
    case False
    with "1.IH" hex_digit_no_bracket [of "n mod 16"] show ?thesis
      by (subst hex_nat.simps) auto
  qed
qed

lemma dec_nat_no_bracket: "CHR ''['' \<notin> set (dec_nat n)"
proof (induction n rule: dec_nat.induct)
  case (1 n)
  show ?case
  proof (cases "n < 10")
    case True
    then show ?thesis using dec_digit_no_bracket [of n] by (simp add: dec_nat_small)
  next
    case False
    with "1.IH" dec_digit_no_bracket [of "n mod 10"] show ?thesis
      by (simp add: dec_nat_big)
  qed
qed

lemma strip_pdu_byte_key: "strip_pdu (byte_key ident i) = byte_key ident i"
  by (rule strip_pdu_no_bracket)
     (simp add: byte_key_def format_X_def hex_nat_no_bracket dec_nat_no_bracket)

lemma strip_pdu_signal_key:
  "CHR ''['' \<notin> set message_name \<Longrightarrow> CHR ''['' \<notin> set signal_name \<Longrightarrow>
     strip_pdu (signal_key message_name signal_name) = signal_key message_name signal_name"
  by (rule strip_pdu_no_bracket) (simp add: signal_key_def)








end
